theory Spec2Isabelle
  imports Main "HOL-Library.Multiset" "HOL-Library.AList"
begin

section \<open>Values of the program\<close>

text \<open>
  The program (\<^verbatim>\<open>src/swapi.js\<close>) fetches JSON documents over HTTPS, keeps them in a
  process-wide cache object and prints selections of them. A JSON document is a tree;
  an object keeps its members in the order of the text, each name once. Numbers are
  the integers: the documents of the service carry counts, and its other quantities
  are strings.
\<close>

datatype json =
    JNull
  | JBool bool
  | JNum int
  | JStr string
  | JArr "json list"
  | JObj "(string \<times> json) list"

text \<open>The truth value JavaScript gives a JSON value in a condition.\<close>

fun json_truthy :: "json \<Rightarrow> bool" where
  "json_truthy JNull = False"
| "json_truthy (JBool b) = b"
| "json_truthy (JNum n) = (n \<noteq> 0)"
| "json_truthy (JStr s) = (s \<noteq> [])"
| "json_truthy (JArr xs) = True"
| "json_truthy (JObj kvs) = True"

text \<open>
  Errors are values. \<open>Error msg\<close> is \<^verbatim>\<open>new Error(msg)\<close>; \<open>SyntaxError\<close> is what
  \<^verbatim>\<open>JSON.parse\<close> throws; \<open>TypeError\<close> is what a property read on \<^verbatim>\<open>null\<close> or
  \<^verbatim>\<open>undefined\<close> throws; \<open>SystemError code\<close> is the error object the runtime hands to
  the request's \<^verbatim>\<open>'error'\<close> listener.
\<close>

datatype js_error =
    Error string
  | SyntaxError
  | TypeError
  | SystemError string

text \<open>Decimal rendering of a number inside a template literal.\<close>

definition digit :: "nat \<Rightarrow> char" where
  "digit d = ''0123456789'' ! d"

function show_nat :: "nat \<Rightarrow> string" where
  "show_nat n = (if n < 10 then [digit n] else show_nat (n div 10) @ [digit (n mod 10)])"
  by pat_completeness auto
termination
  by (relation "measure id") auto

declare show_nat.simps [simp del]

definition show_int :: "int \<Rightarrow> string" where
  "show_int i = (if i < 0 then CHR ''-'' # show_nat (nat (- i)) else show_nat (nat i))"

text \<open>
  What the program takes from the JavaScript runtime and not from its own source:
  \<^verbatim>\<open>JSON.parse\<close> (\<open>None\<close> when it throws), the length of \<^verbatim>\<open>JSON.stringify(v)\<close>,
  \<^verbatim>\<open>Date.parse\<close> (\<open>None\<close> for an invalid date, else milliseconds), and the
  conversion of a string, an array or an object to a number (\<open>Inl\<close> when it throws,
  \<open>Inr None\<close> for \<^verbatim>\<open>NaN\<close>).
\<close>

record runtime =
  JSON_parse :: "string \<Rightarrow> json option"
  JSON_stringify_length :: "json \<Rightarrow> nat"
  Date_parse :: "string \<Rightarrow> int option"
  ToNumber :: "json \<Rightarrow> js_error + int option"

section \<open>Process state\<close>

text \<open>
  A value the program holds: a reference to a parsed document in the store, or a member
  that the cache object inherits from \<^verbatim>\<open>Object.prototype\<close> (the cache is a plain
  \<^verbatim>\<open>{}\<close>, line 14).
\<close>

datatype jsval = Ref nat | Builtin string

text \<open>
  A line of console output: the arguments of one \<^verbatim>\<open>console.log\<close> call. A template
  literal is evaluated to its text; other arguments are recorded as the value passed
  (\<open>Val None\<close> is \<^verbatim>\<open>undefined\<close>, \<open>Cnt\<close> a counter, \<open>Message e\<close> the message of an
  error).
\<close>

datatype logarg = Txt string | Val "json option" | Cnt nat | Message js_error

type_synonym logline = "logarg list"

text \<open>
  The module-level variables of lines 11 to 18, with the store of parsed documents
  (\<open>heap\<close>, \<open>nextRef\<close>) and the console made explicit. The cache object is the
  list of its own properties in insertion order, each an endpoint with the reference of
  its document: two holders of one reference see each other's in-place changes.
\<close>

record state =
  debugMode :: bool
  timeout :: int
  heap :: "nat \<Rightarrow> json"
  nextRef :: nat
  cache :: "(string \<times> nat) list"
  errorCount :: nat
  fetchCount :: nat
  totalDataSize :: nat
  lastCharacterId :: nat
  console :: "logline list"

definition DEFAULT_TIMEOUT :: int where "DEFAULT_TIMEOUT = 5000"
definition LARGE_POPULATION :: int where "LARGE_POPULATION = 1000000000"
definition LARGE_DIAMETER :: int where "LARGE_DIAMETER = 10000"
definition STARSHIPS_LIMIT :: nat where "STARSHIPS_LIMIT = 3"
definition MAX_VEHICLE_ID :: nat where "MAX_VEHICLE_ID = 4"

definition initial :: state where
  "initial = \<lparr> debugMode = True, timeout = DEFAULT_TIMEOUT, heap = (\<lambda>_. JNull), nextRef = 0,
     cache = [], errorCount = 0, fetchCount = 0, totalDataSize = 0,
     lastCharacterId = 1, console = [] \<rparr>"

definition log :: "logline \<Rightarrow> state \<Rightarrow> state" where
  "log l s = s\<lparr>console := console s @ [l]\<rparr>"

definition log_debug :: "logline \<Rightarrow> state \<Rightarrow> state" where
  "log_debug l s = (if debugMode s then log l s else s)"

text \<open>The property names every plain object inherits.\<close>

definition Object_prototype :: "string list" where
  "Object_prototype = [''constructor'', ''__defineGetter__'', ''__defineSetter__'',
     ''hasOwnProperty'', ''__lookupGetter__'', ''__lookupSetter__'', ''isPrototypeOf'',
     ''propertyIsEnumerable'', ''toString'', ''valueOf'', ''__proto__'', ''toLocaleString'']"

text \<open>\<^verbatim>\<open>cache[endpoint]\<close>: an own property first, then an inherited one; \<open>None\<close> is \<^verbatim>\<open>undefined\<close>.\<close>

definition cache_get :: "state \<Rightarrow> string \<Rightarrow> jsval option" where
  "cache_get s e =
     (case map_of (cache s) e of
        Some r \<Rightarrow> Some (Ref r)
      | None \<Rightarrow> if e \<in> set Object_prototype then Some (Builtin e) else None)"

fun truthy :: "state \<Rightarrow> jsval option \<Rightarrow> bool" where
  "truthy s None = False"
| "truthy s (Some (Builtin n)) = True"
| "truthy s (Some (Ref r)) = json_truthy (heap s r)"

text \<open>\<^verbatim>\<open>Object.keys(cache).length\<close>\<close>

definition cache_size :: "state \<Rightarrow> nat" where
  "cache_size s = length (remdups (map fst (cache s)))"

section \<open>The fetch client\<close>

text \<open>
  The promise a call of \<^verbatim>\<open>fetchResource\<close> returns: pending, resolved with a value, or
  rejected with an error. A settled promise stays as it is: a later \<^verbatim>\<open>resolve\<close> or
  \<^verbatim>\<open>reject\<close> does nothing.
\<close>

datatype 'a outcome = Pending | Resolved 'a | Rejected js_error

text \<open>
  One call of \<^verbatim>\<open>fetchResource\<close>: its endpoint, whether a network request was issued
  (line 29), the timer handed to \<^verbatim>\<open>request.setTimeout\<close>, the closure variable
  \<^verbatim>\<open>responseData\<close>, whether the response callback has run (\<^verbatim>\<open>https.get\<close> installs it
  as a one-time listener), whether the \<^verbatim>\<open>'data'\<close> and \<^verbatim>\<open>'end'\<close> listeners of lines 35
  and 36 are registered, whether \<^verbatim>\<open>request.abort()\<close> was called, and the promise.
\<close>

record fetch =
  endpoint :: string
  issued :: bool
  timer :: int
  responseData :: string
  responded :: bool
  listening :: bool
  aborted :: bool
  promise :: "jsval outcome"

definition resolve :: "jsval \<Rightarrow> fetch \<Rightarrow> fetch" where
  "resolve v f = (if promise f = Pending then f\<lparr>promise := Resolved v\<rparr> else f)"

definition reject :: "js_error \<Rightarrow> fetch \<Rightarrow> fetch" where
  "reject e f = (if promise f = Pending then f\<lparr>promise := Rejected e\<rparr> else f)"

definition http_error :: "nat \<Rightarrow> js_error" where
  "http_error status = Error (''Request failed with status code '' @ show_nat status)"

definition timeout_error :: "string \<Rightarrow> js_error" where
  "timeout_error e = Error (''Request timeout for '' @ e)"

text \<open>
  Lines 20 to 29 and 58: the part of \<^verbatim>\<open>fetchResource\<close> that runs when it is called.
  A truthy \<^verbatim>\<open>cache[endpoint]\<close> is returned at once; otherwise a request is issued and
  its listeners and timer are installed.
\<close>

definition request :: "state \<Rightarrow> string \<Rightarrow> fetch" where
  "request s e = \<lparr> endpoint = e, issued = True, timer = timeout s, responseData = [],
     responded = False, listening = False, aborted = False, promise = Pending \<rparr>"

definition cached :: "state \<Rightarrow> string \<Rightarrow> jsval \<Rightarrow> fetch" where
  "cached s e v = \<lparr> endpoint = e, issued = False, timer = timeout s, responseData = [],
     responded = False, listening = False, aborted = False, promise = Resolved v \<rparr>"

definition fetchResource :: "state \<Rightarrow> string \<Rightarrow> fetch \<times> state" where
  "fetchResource s e =
     (case cache_get s e of
        None \<Rightarrow> (request s e, s)
      | Some v \<Rightarrow>
          if truthy s (Some v)
          then (cached s e v, log_debug [Txt ''Using cached data for'', Txt e] s)
          else (request s e, s))"

text \<open>
  What the runtime later delivers to an issued request: the response head with its status
  code (the callback of line 29), a chunk of the body, the end of the body, a transport
  error (line 53), and the expiry of the timer (line 58). Which of these arrive, and in
  which order, is the network's and the runtime's choice.
\<close>

datatype event =
    Response nat
  | Data string
  | End
  | ErrorEv js_error
  | Timeout

definition count_error :: "state \<Rightarrow> state" where
  "count_error s = s\<lparr>errorCount := errorCount s + 1\<rparr>"

text \<open>
  Lines 37 to 49: the \<^verbatim>\<open>'end'\<close> listener. The parsed document is a new object; line 39
  creates the property of the cache or replaces its value.
\<close>

definition on_end :: "runtime \<Rightarrow> fetch \<times> state \<Rightarrow> fetch \<times> state" where
  "on_end rt fs =
     (case fs of (f, s) \<Rightarrow>
       (case JSON_parse rt (responseData f) of
          Some json \<Rightarrow>
            let r = nextRef s;
                s1 = s\<lparr>heap := (heap s)(r := json), nextRef := r + 1,
                       cache := AList.update (endpoint f) r (cache s)\<rparr>;
                s2 = log_debug [Txt (''Successfully fetched data for '' @ endpoint f)] s1;
                s3 = log_debug [Txt (''Cache size: '' @ show_nat (cache_size s2))] s2
            in (resolve (Ref r) f, s3)
        | None \<Rightarrow> (reject SyntaxError f, count_error s)))"

text \<open>The listeners of one request, lines 29 to 62.\<close>

fun deliver :: "runtime \<Rightarrow> event \<Rightarrow> fetch \<times> state \<Rightarrow> fetch \<times> state" where
  "deliver rt (Response status) (f, s) =
     (if \<not> issued f \<or> responded f then (f, s)
      else if status \<ge> 400
        then (reject (http_error status) (f\<lparr>responded := True\<rparr>), count_error s)
        else (f\<lparr>responded := True, listening := True\<rparr>, s))"
| "deliver rt (Data chunk) (f, s) =
     (if issued f \<and> listening f then (f\<lparr>responseData := responseData f @ chunk\<rparr>, s)
      else (f, s))"
| "deliver rt End (f, s) =
     (if issued f \<and> listening f then on_end rt (f, s) else (f, s))"
| "deliver rt (ErrorEv err) (f, s) =
     (if issued f then (reject err f, count_error s) else (f, s))"
| "deliver rt Timeout (f, s) =
     (if issued f then (reject (timeout_error (endpoint f)) (f\<lparr>aborted := True\<rparr>), count_error s)
      else (f, s))"

text \<open>A whole exchange: the call, then the events of its request in their order.\<close>

definition deliver_all :: "runtime \<Rightarrow> event list \<Rightarrow> fetch \<times> state \<Rightarrow> fetch \<times> state" where
  "deliver_all rt evs fs = foldl (\<lambda>acc ev. deliver rt ev acc) fs evs"

definition fetch_with :: "runtime \<Rightarrow> state \<Rightarrow> string \<Rightarrow> event list \<Rightarrow> fetch \<times> state" where
  "fetch_with rt s e evs = deliver_all rt evs (fetchResource s e)"

text \<open>
  The events of a request whose response has not completed: a response head with a status
  below 400, and chunks of the body.
\<close>

fun in_progress :: "event \<Rightarrow> bool" where
  "in_progress (Response status) = (status < 400)"
| "in_progress (Data chunk) = True"
| "in_progress _ = False"

section \<open>Reading JSON values as JavaScript does\<close>

text \<open>
  The display routines read properties of the fetched documents, convert them to text
  inside template literals and to numbers with \<^verbatim>\<open>parseInt\<close>. A value that may be
  \<^verbatim>\<open>undefined\<close> is a \<open>json option\<close>; an expression that may throw is a sum with the
  error on the left.
\<close>

definition andThen :: "js_error + 'a \<Rightarrow> ('a \<Rightarrow> js_error + 'b) \<Rightarrow> js_error + 'b" where
  "andThen m k = (case m of Inl e \<Rightarrow> Inl e | Inr a \<Rightarrow> k a)"

text \<open>
  \<^verbatim>\<open>x.name\<close> for the names the program reads, none of which is inherited from
  \<^verbatim>\<open>Object.prototype\<close>: a read on \<^verbatim>\<open>null\<close> or \<^verbatim>\<open>undefined\<close> throws; arrays and strings
  have a \<^verbatim>\<open>length\<close>; numbers and booleans have none of the names.
\<close>

fun property :: "json option \<Rightarrow> string \<Rightarrow> js_error + json option" where
  "property None k = Inl TypeError"
| "property (Some JNull) k = Inl TypeError"
| "property (Some (JObj kvs)) k = Inr (map_of kvs k)"
| "property (Some (JArr xs)) k = Inr (if k = ''length'' then Some (JNum (int (length xs))) else None)"
| "property (Some (JStr s)) k = Inr (if k = ''length'' then Some (JNum (int (length s))) else None)"
| "property (Some (JNum n)) k = Inr None"
| "property (Some (JBool b)) k = Inr None"

text \<open>\<^verbatim>\<open>x?.length\<close>: \<^verbatim>\<open>undefined\<close> when \<open>x\<close> is \<^verbatim>\<open>null\<close> or \<^verbatim>\<open>undefined\<close>.\<close>

definition opt_length :: "json option \<Rightarrow> json option" where
  "opt_length x =
     (case x of
        None \<Rightarrow> None
      | Some JNull \<Rightarrow> None
      | Some j \<Rightarrow> (case property (Some j) ''length'' of Inl e \<Rightarrow> None | Inr v \<Rightarrow> v))"

text \<open>\<^verbatim>\<open>xs[i]\<close>: an element of an array, a character of a string, a member of an object.\<close>

fun index :: "json option \<Rightarrow> nat \<Rightarrow> js_error + json option" where
  "index None i = Inl TypeError"
| "index (Some JNull) i = Inl TypeError"
| "index (Some (JArr xs)) i = Inr (if i < length xs then Some (xs ! i) else None)"
| "index (Some (JStr s)) i = Inr (if i < length s then Some (JStr [s ! i]) else None)"
| "index (Some (JObj kvs)) i = Inr (map_of kvs (show_nat i))"
| "index (Some (JNum n)) i = Inr None"
| "index (Some (JBool b)) i = Inr None"

text \<open>The conversion to a number; \<open>Inr None\<close> is \<^verbatim>\<open>NaN\<close>.\<close>

definition to_number :: "runtime \<Rightarrow> json option \<Rightarrow> js_error + int option" where
  "to_number rt v =
     (case v of
        None \<Rightarrow> Inr None
      | Some JNull \<Rightarrow> Inr (Some 0)
      | Some (JBool b) \<Rightarrow> Inr (Some (if b then 1 else 0))
      | Some (JNum n) \<Rightarrow> Inr (Some n)
      | Some j \<Rightarrow> ToNumber rt j)"

text \<open>\<^verbatim>\<open>v > 0\<close>; a comparison with \<^verbatim>\<open>NaN\<close> is false.\<close>

definition greater_zero :: "runtime \<Rightarrow> json option \<Rightarrow> js_error + bool" where
  "greater_zero rt v =
     andThen (to_number rt v) (\<lambda>n. Inr (case n of None \<Rightarrow> False | Some i \<Rightarrow> i > 0))"

text \<open>
  The conversion to a string. An array joins its elements with commas, \<^verbatim>\<open>null\<close>
  elements as the empty string. An object is \<^verbatim>\<open>[object Object]\<close>, unless it has a member
  named \<^verbatim>\<open>toString\<close>: a member of a JSON object is not callable, the inherited
  \<^verbatim>\<open>valueOf\<close> returns the object itself, and the conversion throws.
\<close>

fun ToString :: "json \<Rightarrow> js_error + string"
  and join :: "json list \<Rightarrow> js_error + string" where
  "ToString JNull = Inr ''null''"
| "ToString (JBool b) = Inr (if b then ''true'' else ''false'')"
| "ToString (JNum n) = Inr (show_int n)"
| "ToString (JStr s) = Inr s"
| "ToString (JArr xs) = join xs"
| "ToString (JObj kvs) =
     (if map_of kvs ''toString'' = None then Inr ''[object Object]'' else Inl TypeError)"
| "join [] = Inr []"
| "join (x # xs) =
     (case (if x = JNull then Inr [] else ToString x) of
        Inl e \<Rightarrow> Inl e
      | Inr a \<Rightarrow>
          if xs = [] then Inr a
          else (case join xs of Inl e \<Rightarrow> Inl e | Inr b \<Rightarrow> Inr (a @ '','' @ b)))"

definition to_string :: "json option \<Rightarrow> js_error + string" where
  "to_string v = (case v of None \<Rightarrow> Inr ''undefined'' | Some j \<Rightarrow> ToString j)"

text \<open>A template literal: literal text and substituted values, converted in order.\<close>

datatype part = Lit string | Sub "json option"

fun template :: "part list \<Rightarrow> js_error + string" where
  "template [] = Inr []"
| "template (Lit t # ps) = andThen (template ps) (\<lambda>r. Inr (t @ r))"
| "template (Sub v # ps) =
     andThen (to_string v) (\<lambda>a. andThen (template ps) (\<lambda>r. Inr (a @ r)))"

subsection \<open>parseInt\<close>

text \<open>
  \<^verbatim>\<open>parseInt\<close> with no radix: leading white space is skipped, a sign is read, the prefix
  \<^verbatim>\<open>0x\<close> selects base 16, and the longest run of digits is the number; what follows the
  digits is ignored, and no digit at all gives \<^verbatim>\<open>NaN\<close> (\<open>None\<close>). The result is the
  exact integer: the program only compares it with 1000000000 and 10000, which the
  rounding to a double does not change.
\<close>

definition is_space :: "char \<Rightarrow> bool" where
  "is_space c = (c \<in> set [CHR 0x09, CHR 0x0A, CHR 0x0B, CHR 0x0C, CHR 0x0D, CHR '' ''])"

definition digit_value :: "char \<Rightarrow> nat option" where
  "digit_value c =
     (let n = of_char c :: nat in
      if 48 \<le> n \<and> n \<le> 57 then Some (n - 48)
      else if 97 \<le> n \<and> n \<le> 102 then Some (n - 87)
      else if 65 \<le> n \<and> n \<le> 70 then Some (n - 55)
      else None)"

definition is_digit :: "nat \<Rightarrow> char \<Rightarrow> bool" where
  "is_digit radix c = (case digit_value c of None \<Rightarrow> False | Some d \<Rightarrow> d < radix)"

definition digits_value :: "nat \<Rightarrow> string \<Rightarrow> nat" where
  "digits_value radix ds =
     foldl (\<lambda>acc c. acc * radix + (case digit_value c of None \<Rightarrow> 0 | Some d \<Rightarrow> d)) 0 ds"

definition parse_digits :: "nat \<Rightarrow> string \<Rightarrow> nat option" where
  "parse_digits radix s =
     (let ds = takeWhile (is_digit radix) s
      in if ds = [] then None else Some (digits_value radix ds))"

definition parse_unsigned :: "string \<Rightarrow> nat option" where
  "parse_unsigned s =
     (if take 2 s = ''0x'' \<or> take 2 s = ''0X'' then parse_digits 16 (drop 2 s)
      else parse_digits 10 s)"

definition parseInt_string :: "string \<Rightarrow> int option" where
  "parseInt_string inputString =
     (let s = dropWhile is_space inputString
      in case s of
           [] \<Rightarrow> None
         | c # rest \<Rightarrow>
             if c = CHR ''-'' then map_option (\<lambda>n. - int n) (parse_unsigned rest)
             else if c = CHR ''+'' then map_option int (parse_unsigned rest)
             else map_option int (parse_unsigned s))"

definition parseInt :: "json option \<Rightarrow> js_error + int option" where
  "parseInt v = andThen (to_string v) (\<lambda>s. Inr (parseInt_string s))"

section \<open>The display routines\<close>

text \<open>
  A console statement either throws or prints lines. A block of statements prints until
  the first one that throws.
\<close>

type_synonym stmt = "js_error + logline list"

fun run_stmts :: "stmt list \<Rightarrow> logline list \<times> js_error option" where
  "run_stmts [] = ([], None)"
| "run_stmts (Inl e # rest) = ([], Some e)"
| "run_stmts (Inr ls # rest) = (case run_stmts rest of (ls', r) \<Rightarrow> (ls @ ls', r))"

definition say :: "logline \<Rightarrow> stmt" where
  "say l = Inr [l]"

text \<open>\<^verbatim>\<open>console.log(label, x.name)\<close>\<close>

definition show_property :: "string \<Rightarrow> json option \<Rightarrow> string \<Rightarrow> stmt" where
  "show_property label x name = andThen (property x name) (\<lambda>v. say [Txt label, Val v])"

text \<open>
  \<^verbatim>\<open>console.log(`...`)\<close> with one template literal, whose parts are literal text and
  properties read from a value.
\<close>

definition lit :: "string \<Rightarrow> js_error + part" where
  "lit t = Inr (Lit t)"

definition sub :: "json option \<Rightarrow> string \<Rightarrow> js_error + part" where
  "sub x name = andThen (property x name) (\<lambda>v. Inr (Sub v))"

fun parts_of :: "(js_error + part) list \<Rightarrow> js_error + part list" where
  "parts_of [] = Inr []"
| "parts_of (Inl e # ps) = Inl e"
| "parts_of (Inr p # ps) = andThen (parts_of ps) (\<lambda>r. Inr (p # r))"

definition say_template :: "(js_error + part) list \<Rightarrow> stmt" where
  "say_template ps = andThen (parts_of ps) (\<lambda>qs. andThen (template qs) (\<lambda>t. say [Txt t]))"

text \<open>\<^verbatim>\<open>if (x.name?.length > 0) console.log(...)\<close> with the line built from the length.\<close>

definition when_nonempty ::
  "runtime \<Rightarrow> json option \<Rightarrow> string \<Rightarrow> (json option \<Rightarrow> stmt) \<Rightarrow> stmt" where
  "when_nonempty rt x name line =
     andThen (property x name) (\<lambda>member.
       andThen (greater_zero rt (opt_length member)) (\<lambda>b.
         if b then line (opt_length member) else Inr []))"

subsection \<open>displayCharacterData, lines 70 to 76\<close>

definition character_stmts :: "runtime \<Rightarrow> json \<Rightarrow> stmt list" where
  "character_stmts rt character =
     [ show_property ''Character:'' (Some character) ''name'',
       show_property ''Height:'' (Some character) ''height'',
       show_property ''Mass:'' (Some character) ''mass'',
       show_property ''Birthday:'' (Some character) ''birth_year'',
       when_nonempty rt (Some character) ''films''
         (\<lambda>n. say [Txt ''Appears in'', Val n, Txt ''films'']) ]"

subsection \<open>displayStarships, lines 83 to 97\<close>

text \<open>
  \<^verbatim>\<open>Math.min(STARSHIPS_LIMIT, starships.results.length)\<close> as the number of rounds of the
  loop: none when the length is \<^verbatim>\<open>NaN\<close> or not positive.
\<close>

definition starships_shown :: "runtime \<Rightarrow> json option \<Rightarrow> js_error + nat" where
  "starships_shown rt results =
     andThen (property results ''length'') (\<lambda>len.
       andThen (to_number rt len) (\<lambda>n.
         Inr (case n of None \<Rightarrow> 0 | Some k \<Rightarrow> nat (min (int STARSHIPS_LIMIT) k))))"

definition ship_stmts :: "runtime \<Rightarrow> json option \<Rightarrow> nat \<Rightarrow> stmt list" where
  "ship_stmts rt results i =
     (case index results i of
        Inl e \<Rightarrow> [Inl e]
      | Inr ship \<Rightarrow>
          [ say [Txt (CHR 0x0A # ''Starship '' @ show_nat (i + 1) @ '':'')],
            show_property ''Name:'' ship ''name'',
            show_property ''Model:'' ship ''model'',
            show_property ''Manufacturer:'' ship ''manufacturer'',
            andThen (property ship ''cost_in_credits'') (\<lambda>cost.
              if cost = Some (JStr ''unknown'') then say [Txt ''Cost:'', Txt ''unknown'']
              else andThen (to_string cost) (\<lambda>t. say [Txt ''Cost:'', Txt (t @ '' credits'')])),
            show_property ''Speed:'' ship ''max_atmosphering_speed'',
            show_property ''Hyperdrive Rating:'' ship ''hyperdrive_rating'',
            when_nonempty rt ship ''pilots'' (\<lambda>n. say [Txt ''Pilots:'', Val n]) ])"

definition starships_stmts :: "runtime \<Rightarrow> json \<Rightarrow> stmt list" where
  "starships_stmts rt starships =
     show_property (CHR 0x0A # ''Total Starships:'') (Some starships) ''count'' #
     (case property (Some starships) ''results'' of
        Inl e \<Rightarrow> [Inl e]
      | Inr results \<Rightarrow>
          (case starships_shown rt results of
             Inl e \<Rightarrow> [Inl e]
           | Inr n \<Rightarrow> concat (map (ship_stmts rt results) [0..<n])))"

subsection \<open>displayLargePlanets, lines 104 to 115\<close>

text \<open>\<^verbatim>\<open>!isNaN(v) && v > limit\<close>\<close>

definition exceeds :: "int option \<Rightarrow> int \<Rightarrow> bool" where
  "exceeds v limit = (case v of None \<Rightarrow> False | Some n \<Rightarrow> n > limit)"

definition planet_line :: "json \<Rightarrow> stmt" where
  "planet_line planet =
     say_template
       [ sub (Some planet) ''name'', lit '' - Pop: '', sub (Some planet) ''population'',
         lit '' - Diameter: '', sub (Some planet) ''diameter'',
         lit '' - Climate: '', sub (Some planet) ''climate'' ]"

definition planet_films_line :: "runtime \<Rightarrow> json \<Rightarrow> stmt" where
  "planet_films_line rt planet =
     when_nonempty rt (Some planet) ''films''
       (\<lambda>n. say_template [lit ''  Appears in '', Inr (Sub n), lit '' films''])"

text \<open>The callback of \<^verbatim>\<open>forEach\<close>, lines 106 to 114.\<close>

definition planet_stmts :: "runtime \<Rightarrow> json \<Rightarrow> stmt list" where
  "planet_stmts rt planet =
     (case andThen (property (Some planet) ''population'') parseInt of
        Inl e \<Rightarrow> [Inl e]
      | Inr population \<Rightarrow>
          (case andThen (property (Some planet) ''diameter'') parseInt of
             Inl e \<Rightarrow> [Inl e]
           | Inr diameter \<Rightarrow>
               if exceeds population LARGE_POPULATION \<and> exceeds diameter LARGE_DIAMETER
               then [planet_line planet, planet_films_line rt planet]
               else []))"

definition planets_stmts :: "runtime \<Rightarrow> json \<Rightarrow> stmt list" where
  "planets_stmts rt planets =
     say [Txt (CHR 0x0A # ''Large populated planets:'')] #
     (case property (Some planets) ''results'' of
        Inr (Some (JArr results)) \<Rightarrow> concat (map (planet_stmts rt) results)
      | _ \<Rightarrow> [Inl TypeError])"

subsection \<open>displayFilms, lines 122 to 130\<close>

text \<open>
  \<^verbatim>\<open>new Date(v)\<close> as its time value, \<open>None\<close> for an invalid date: a string is parsed as
  a date, a number is the time itself when it is in the range of dates, and an array or
  an object is parsed from its text.
\<close>

definition date_value :: "runtime \<Rightarrow> json option \<Rightarrow> js_error + int option" where
  "date_value rt v =
     (case v of
        None \<Rightarrow> Inr None
      | Some JNull \<Rightarrow> Inr (Some 0)
      | Some (JBool b) \<Rightarrow> Inr (Some (if b then 1 else 0))
      | Some (JNum n) \<Rightarrow> Inr (if \<bar>n\<bar> \<le> 8640000000000000 then Some n else None)
      | Some (JStr s) \<Rightarrow> Inr (Date_parse rt s)
      | Some j \<Rightarrow> andThen (ToString j) (\<lambda>s. Inr (Date_parse rt s)))"

definition film_time :: "runtime \<Rightarrow> json \<Rightarrow> js_error + int option" where
  "film_time rt film = andThen (property (Some film) ''release_date'') (date_value rt)"

text \<open>
  The comparator of line 122 on the two time values: their difference, and \<^verbatim>\<open>NaN\<close>
  when one of the dates is invalid, which \<^verbatim>\<open>sort\<close> takes as 0.
\<close>

definition compare_times :: "int option \<Rightarrow> int option \<Rightarrow> int" where
  "compare_times a b = (case (a, b) of (Some x, Some y) \<Rightarrow> x - y | _ \<Rightarrow> 0)"

text \<open>
  \<^verbatim>\<open>Array.prototype.sort\<close> with a comparator, as a stable insertion sort. The language
  fixes the result when the comparator is consistent, which a difference of valid time
  values is: then every stable sort gives this list. With invalid dates among the keys
  the order is the implementation's choice, and this is one such choice.
\<close>

fun insert_by :: "('a \<Rightarrow> 'a \<Rightarrow> int) \<Rightarrow> 'a \<Rightarrow> 'a list \<Rightarrow> 'a list" where
  "insert_by cmp x [] = [x]"
| "insert_by cmp x (y # ys) = (if cmp x y \<le> 0 then x # y # ys else y # insert_by cmp x ys)"

definition Array_sort :: "('a \<Rightarrow> 'a \<Rightarrow> int) \<Rightarrow> 'a list \<Rightarrow> 'a list" where
  "Array_sort cmp xs = foldr (insert_by cmp) xs []"

fun film_times :: "runtime \<Rightarrow> json list \<Rightarrow> js_error + (int option \<times> json) list" where
  "film_times rt [] = Inr []"
| "film_times rt (film # films) =
     andThen (film_time rt film) (\<lambda>t.
       andThen (film_times rt films) (\<lambda>rest. Inr ((t, film) # rest)))"

text \<open>
  Line 122. An array of fewer than two films is returned without a call of the
  comparator; otherwise every film is compared, and a comparison that throws ends the
  sort.
\<close>

definition sort_films :: "runtime \<Rightarrow> json list \<Rightarrow> js_error + json list" where
  "sort_films rt films =
     (if length films < 2 then Inr films
      else andThen (film_times rt films) (\<lambda>keyed.
             Inr (map snd (Array_sort (\<lambda>a b. compare_times (fst a) (fst b)) keyed))))"

text \<open>The callback of \<^verbatim>\<open>forEach\<close>, lines 125 to 129, for the film at position \<open>i\<close>.\<close>

definition film_stmts :: "nat \<times> json \<Rightarrow> stmt list" where
  "film_stmts p =
     (case p of (i, film) \<Rightarrow>
       [ say_template [lit (show_nat (i + 1)), lit ''. '', sub (Some film) ''title'', lit '' ('',
                       sub (Some film) ''release_date'', lit '')''],
         say_template [lit ''   Director: '', sub (Some film) ''director''],
         say_template [lit ''   Producer: '', sub (Some film) ''producer''],
         say_template [lit ''   Characters: '',
                       andThen (property (Some film) ''characters'') (\<lambda>c. sub c ''length'')],
         say_template [lit ''   Planets: '',
                       andThen (property (Some film) ''planets'') (\<lambda>c. sub c ''length'')] ])"

definition films_stmts :: "json list \<Rightarrow> stmt list" where
  "films_stmts sortedFilms =
     say [Txt (CHR 0x0A # ''Star Wars Films in chronological order:'')] #
     concat (map film_stmts (enumerate 0 sortedFilms))"

text \<open>
  \<^verbatim>\<open>films.results\<close> when it is an array: only then has it a \<^verbatim>\<open>sort\<close> to call.
\<close>

definition results_array :: "json \<Rightarrow> js_error + json list" where
  "results_array doc =
     (case property (Some doc) ''results'' of
        Inr (Some (JArr results)) \<Rightarrow> Inr results
      | _ \<Rightarrow> Inl TypeError)"

text \<open>The document with its \<^verbatim>\<open>results\<close> array in a new order: the sort is in place.\<close>

definition with_results :: "json list \<Rightarrow> json \<Rightarrow> json" where
  "with_results results doc =
     (case doc of JObj kvs \<Rightarrow> JObj (AList.update ''results'' (JArr results) kvs) | _ \<Rightarrow> doc)"

subsection \<open>displayVehicle, lines 138 to 145\<close>

definition vehicle_stmts :: "json \<Rightarrow> stmt list" where
  "vehicle_stmts vehicle =
     [ say [Txt (CHR 0x0A # ''Featured Vehicle:'')],
       show_property ''Name:'' (Some vehicle) ''name'',
       show_property ''Model:'' (Some vehicle) ''model'',
       show_property ''Manufacturer:'' (Some vehicle) ''manufacturer'',
       andThen (property (Some vehicle) ''cost_in_credits'')
         (\<lambda>v. say [Txt ''Cost:'', Val v, Txt ''credits'']),
       show_property ''Length:'' (Some vehicle) ''length'',
       show_property ''Crew Required:'' (Some vehicle) ''crew'',
       show_property ''Passengers:'' (Some vehicle) ''passengers'' ]"

section \<open>The demo run\<close>

text \<open>
  Each display routine is an async function with one \<^verbatim>\<open>await\<close>: it calls
  \<^verbatim>\<open>fetchResource\<close> with an endpoint, and the rest of its body runs when the promise is
  resolved. \<open>route\<close> is the endpoint of the call, \<open>None\<close> when \<^verbatim>\<open>displayVehicle\<close> finds
  the cursor above \<^verbatim>\<open>MAX_VEHICLE_ID\<close> and returns at once (line 134).
\<close>

datatype stage = Character | Starships | Planets | Films | Vehicle

fun route :: "stage \<Rightarrow> state \<Rightarrow> string option" where
  "route Character s = Some (''people/'' @ show_nat (lastCharacterId s))"
| "route Starships s = Some ''starships/?page=1''"
| "route Planets s = Some ''planets/?page=1''"
| "route Films s = Some ''films/''"
| "route Vehicle s =
     (if lastCharacterId s \<le> MAX_VEHICLE_ID
      then Some (''vehicles/'' @ show_nat (lastCharacterId s)) else None)"

text \<open>\<^verbatim>\<open>totalDataSize += JSON.stringify(doc).length\<close>\<close>

definition add_size :: "runtime \<Rightarrow> json \<Rightarrow> state \<Rightarrow> state" where
  "add_size rt doc s = s\<lparr>totalDataSize := totalDataSize s + JSON_stringify_length rt doc\<rparr>"

text \<open>A block of console statements: the lines go to the console, the error to the caller.\<close>

definition print :: "stmt list \<Rightarrow> state \<Rightarrow> js_error option \<times> state" where
  "print stmts s = (case run_stmts stmts of (ls, r) \<Rightarrow> (r, s\<lparr>console := console s @ ls\<rparr>))"

text \<open>The bodies after the \<^verbatim>\<open>await\<close>, with the fetched document.\<close>

definition displayCharacterData :: "runtime \<Rightarrow> json \<Rightarrow> state \<Rightarrow> js_error option \<times> state" where
  "displayCharacterData rt character s = print (character_stmts rt character) (add_size rt character s)"

definition displayStarships :: "runtime \<Rightarrow> json \<Rightarrow> state \<Rightarrow> js_error option \<times> state" where
  "displayStarships rt starships s = print (starships_stmts rt starships) (add_size rt starships s)"

definition displayLargePlanets :: "runtime \<Rightarrow> json \<Rightarrow> state \<Rightarrow> js_error option \<times> state" where
  "displayLargePlanets rt planets s = print (planets_stmts rt planets) (add_size rt planets s)"

text \<open>
  \<^verbatim>\<open>displayFilms\<close> sorts \<^verbatim>\<open>films.results\<close> in place: the document at the reference, which
  the cache may hold too, has the sorted array afterwards.
\<close>

definition displayFilms :: "runtime \<Rightarrow> nat \<Rightarrow> state \<Rightarrow> js_error option \<times> state" where
  "displayFilms rt r s =
     (let films = heap s r; s1 = add_size rt films s
      in case andThen (results_array films) (sort_films rt) of
           Inl e \<Rightarrow> (Some e, s1)
         | Inr sortedFilms \<Rightarrow>
             print (films_stmts sortedFilms)
               (s1\<lparr>heap := (heap s1)(r := with_results sortedFilms films)\<rparr>))"

definition displayVehicle :: "runtime \<Rightarrow> json \<Rightarrow> state \<Rightarrow> js_error option \<times> state" where
  "displayVehicle rt vehicle s =
     (case print (vehicle_stmts vehicle) (add_size rt vehicle s) of
        (None, s') \<Rightarrow> (None, s'\<lparr>lastCharacterId := lastCharacterId s' + 1\<rparr>)
      | (Some e, s') \<Rightarrow> (Some e, s'))"

text \<open>
  The rest of a routine with the value its \<^verbatim>\<open>await\<close> yields. \<^verbatim>\<open>JSON.stringify\<close> of an
  inherited function is \<^verbatim>\<open>undefined\<close>, whose \<^verbatim>\<open>length\<close> cannot be read. No route names
  an inherited member (every route contains a slash), so a run never holds one.
\<close>

definition resume :: "runtime \<Rightarrow> stage \<Rightarrow> jsval \<Rightarrow> state \<Rightarrow> js_error option \<times> state" where
  "resume rt k v s =
     (case v of
        Builtin n \<Rightarrow> (Some TypeError, s)
      | Ref r \<Rightarrow>
          (case k of
             Character \<Rightarrow> displayCharacterData rt (heap s r) s
           | Starships \<Rightarrow> displayStarships rt (heap s r) s
           | Planets \<Rightarrow> displayLargePlanets rt (heap s r) s
           | Films \<Rightarrow> displayFilms rt r s
           | Vehicle \<Rightarrow> displayVehicle rt (heap s r) s))"

text \<open>Lines 150 to 158.\<close>

definition displayStats :: "state \<Rightarrow> state" where
  "displayStats s =
     (if debugMode s
      then s\<lparr>console := console s @
             [ [Txt (CHR 0x0A # ''Stats:'')],
               [Txt ''API Calls:'', Cnt (fetchCount s)],
               [Txt ''Cache Size:'', Cnt (cache_size s)],
               [Txt ''Total Data Size:'', Cnt (totalDataSize s), Txt ''bytes''],
               [Txt ''Error Count:'', Cnt (errorCount s)] ]\<rparr>
      else s)"

text \<open>Lines 171 to 174: the \<^verbatim>\<open>catch\<close> of \<^verbatim>\<open>runDemo\<close>.\<close>

definition runDemo_catch :: "js_error \<Rightarrow> state \<Rightarrow> state" where
  "runDemo_catch e s = count_error (log [Txt ''Error:'', Message e] s)"

text \<open>Lines 162 and 163: what \<^verbatim>\<open>runDemo\<close> does before its first routine.\<close>

definition runDemo_begin :: "state \<Rightarrow> state" where
  "runDemo_begin s =
     (let s1 = log_debug [Txt ''Starting data fetch...''] s
      in s1\<lparr>fetchCount := fetchCount s1 + 1\<rparr>)"

section \<open>The process\<close>

text \<open>
  The process is single-threaded. A step of it is one callback of the runtime with all
  that follows from it before the next callback: the listener of a request and, when the
  listener settles the promise, the run that awaits it, up to that run's next pending
  fetch. A run that waits is at the head of its remaining routines and names the request
  it awaits. Requests outlive the run that issued them: their listeners stay installed.
\<close>

datatype run = Waiting "stage list" nat | Finished

datatype body =
    Page nat nat nat bool int
  | Plain string
  | StatsJson nat nat nat nat bool int

record http_response =
  statusCode :: nat
  contentType :: string
  body :: body

record system =
  globals :: state
  requests :: "fetch list"
  runs :: "run list"
  sent :: "http_response list"

text \<open>
  Lines 165 to 170 from some routine on: a routine whose value is in the cache continues
  in the same step; one that issues a request leaves the run waiting for it.
\<close>

fun runDemo_steps :: "runtime \<Rightarrow> stage list \<Rightarrow> system \<Rightarrow> run \<times> system" where
  "runDemo_steps rt [] sys = (Finished, sys\<lparr>globals := displayStats (globals sys)\<rparr>)"
| "runDemo_steps rt (k # ks) sys =
     (case route k (globals sys) of
        None \<Rightarrow> runDemo_steps rt ks sys
      | Some e \<Rightarrow>
          (case fetchResource (globals sys) e of (f, s1) \<Rightarrow>
            (case promise f of
               Resolved v \<Rightarrow>
                 (case resume rt k v s1 of
                    (None, s2) \<Rightarrow> runDemo_steps rt ks (sys\<lparr>globals := s2\<rparr>)
                  | (Some err, s2) \<Rightarrow> (Finished, sys\<lparr>globals := runDemo_catch err s2\<rparr>))
             | Rejected err \<Rightarrow> (Finished, sys\<lparr>globals := runDemo_catch err s1\<rparr>)
             | Pending \<Rightarrow>
                 (Waiting (k # ks) (length (requests sys)),
                  sys\<lparr>globals := s1, requests := requests sys @ [f]\<rparr>))))"

definition runDemo :: "runtime \<Rightarrow> system \<Rightarrow> system" where
  "runDemo rt sys =
     (case runDemo_steps rt [Character, Starships, Planets, Films, Vehicle]
             (sys\<lparr>globals := runDemo_begin (globals sys)\<rparr>) of
        (r, sys') \<Rightarrow> sys'\<lparr>runs := runs sys' @ [r]\<rparr>)"

text \<open>
  The run \<open>j\<close> goes on when the promise it awaits is settled. It is called for a run
  that waits: \<open>j\<close> is within the runs and names a run with its request.
\<close>

definition continue_run :: "runtime \<Rightarrow> nat \<Rightarrow> system \<Rightarrow> system" where
  "continue_run rt j sys =
     (case runs sys ! j of
        Waiting (k # ks) i \<Rightarrow>
          (case promise (requests sys ! i) of
             Pending \<Rightarrow> sys
           | Resolved v \<Rightarrow>
               (case resume rt k v (globals sys) of
                  (None, s') \<Rightarrow>
                    (case runDemo_steps rt ks (sys\<lparr>globals := s'\<rparr>) of
                       (r, sys') \<Rightarrow> sys'\<lparr>runs := (runs sys')[j := r]\<rparr>)
                | (Some e, s') \<Rightarrow>
                    sys\<lparr>globals := runDemo_catch e s', runs := (runs sys)[j := Finished]\<rparr>)
           | Rejected e \<Rightarrow>
               sys\<lparr>globals := runDemo_catch e (globals sys), runs := (runs sys)[j := Finished]\<rparr>)
      | _ \<Rightarrow> sys)"

fun waits_for :: "nat \<Rightarrow> run \<Rightarrow> bool" where
  "waits_for i (Waiting ks j) = (i = j)"
| "waits_for i Finished = False"

definition waiting_run :: "nat \<Rightarrow> run list \<Rightarrow> nat option" where
  "waiting_run i rs =
     (let j = length (takeWhile (\<lambda>r. \<not> waits_for i r) rs)
      in if j < length rs then Some j else None)"

text \<open>An event of request \<open>i\<close>: its listener, then the run that awaits the request.\<close>

definition net :: "runtime \<Rightarrow> nat \<Rightarrow> event \<Rightarrow> system \<Rightarrow> system" where
  "net rt i ev sys =
     (if i < length (requests sys)
      then (case deliver rt ev (requests sys ! i, globals sys) of
              (f', s') \<Rightarrow>
                let sys1 = sys\<lparr>globals := s', requests := (requests sys)[i := f']\<rparr>
                in (case waiting_run i (runs sys1) of
                      None \<Rightarrow> sys1
                    | Some j \<Rightarrow> continue_run rt j sys1))
      else sys)"

text \<open>
  The request listener of the HTTP server, lines 187 to 248, on \<^verbatim>\<open>req.url\<close>. The page
  is represented by the values its footer interpolates, the status document by its six
  members. \<^verbatim>\<open>/api\<close> starts a run and does not wait for it.
\<close>

definition server :: "runtime \<Rightarrow> string \<Rightarrow> system \<Rightarrow> http_response \<times> system" where
  "server rt url sys =
     (let s = globals sys in
      if url = ''/'' \<or> url = ''/index.html''
      then (\<lparr> statusCode = 200, contentType = ''text/html'',
               body = Page (fetchCount s) (cache_size s) (errorCount s) (debugMode s) (timeout s) \<rparr>,
            sys)
      else if url = ''/api''
      then (\<lparr> statusCode = 200, contentType = ''text/plain'',
               body = Plain ''Check server console for results'' \<rparr>,
            runDemo rt sys)
      else if url = ''/stats''
      then (\<lparr> statusCode = 200, contentType = ''application/json'',
               body = StatsJson (fetchCount s) (cache_size s) (totalDataSize s) (errorCount s)
                        (debugMode s) (timeout s) \<rparr>,
            sys)
      else (\<lparr> statusCode = 404, contentType = ''text/plain'', body = Plain ''Not Found'' \<rparr>, sys))"

text \<open>The path of a request target: the part before the query.\<close>

definition url_path :: "string \<Rightarrow> string" where
  "url_path url = takeWhile (\<lambda>c. c \<noteq> CHR ''?'') url"

text \<open>What the runtime can call: the server's listener with a request, or a listener of a request.\<close>

datatype action = Http string | Net nat event

fun exec :: "runtime \<Rightarrow> action \<Rightarrow> system \<Rightarrow> system" where
  "exec rt (Http url) sys =
     (case server rt url sys of (response, sys') \<Rightarrow> sys'\<lparr>sent := sent sys' @ [response]\<rparr>)"
| "exec rt (Net i ev) sys = net rt i ev sys"

definition exec_all :: "runtime \<Rightarrow> action list \<Rightarrow> system \<Rightarrow> system" where
  "exec_all rt as sys = foldl (\<lambda>acc a. exec rt a acc) sys as"

text \<open>
  Lines 177 to 185 and 250 to 258: the command line sets the two settings, and the
  server announces itself. \<open>port\<close> is the text of \<^verbatim>\<open>process.env.PORT || 3000\<close>.
\<close>

definition configure :: "string list \<Rightarrow> state \<Rightarrow> state" where
  "configure args s =
     (let s1 = (if ''--no-debug'' \<in> set args then s\<lparr>debugMode := False\<rparr> else s);
          index = length (takeWhile (\<lambda>a. a \<noteq> ''--timeout'') args)
      in if ''--timeout'' \<in> set args \<and> index + 1 < length args
         then (case parseInt_string (args ! (index + 1)) of
                 None \<Rightarrow> s1
               | Some t \<Rightarrow> s1\<lparr>timeout := t\<rparr>)
         else s1)"

definition announce :: "string \<Rightarrow> state \<Rightarrow> state" where
  "announce port s =
     (let s1 = log [Txt (''Server running at http://localhost:'' @ port @ ''/'')] s;
          s2 = log [Txt ''Open the URL in your browser and click the button to fetch Star Wars data''] s1
      in if debugMode s2
         then log [Txt ''Timeout:'', Val (Some (JNum (timeout s2))), Txt ''ms'']
                (log [Txt ''Debug mode: ON''] s2)
         else s2)"

definition boot :: "string list \<Rightarrow> string \<Rightarrow> system" where
  "boot args port =
     \<lparr> globals = announce port (configure args initial), requests = [], runs = [], sent = [] \<rparr>"

text \<open>The states the process can be in.\<close>

inductive reachable :: "runtime \<Rightarrow> system \<Rightarrow> bool" for rt where
  start: "reachable rt (boot args port)"
| step: "reachable rt sys \<Longrightarrow> reachable rt (exec rt a sys)"

text \<open>
  The states the process can be in when no two runs overlap: a request for \<^verbatim>\<open>/api\<close>
  arrives only when every earlier run has finished.
\<close>

definition idle :: "system \<Rightarrow> bool" where
  "idle sys = list_all (\<lambda>r. r = Finished) (runs sys)"

fun overlaps :: "action \<Rightarrow> system \<Rightarrow> bool" where
  "overlaps (Http url) sys = (url = ''/api'' \<and> \<not> idle sys)"
| "overlaps (Net i ev) sys = False"

inductive reachable_apart :: "runtime \<Rightarrow> system \<Rightarrow> bool" for rt where
  start: "reachable_apart rt (boot args port)"
| step: "reachable_apart rt sys \<Longrightarrow> \<not> overlaps a sys \<Longrightarrow> reachable_apart rt (exec rt a sys)"

section \<open>Notions of the specification\<close>






text \<open>A film whose release date is a valid date, and the time value of that date.\<close>

definition dated :: "runtime \<Rightarrow> json \<Rightarrow> bool" where
  "dated rt film = (case film_time rt film of Inr (Some t) \<Rightarrow> True | _ \<Rightarrow> False)"

definition release_time :: "runtime \<Rightarrow> json \<Rightarrow> int" where
  "release_time rt film = (case film_time rt film of Inr (Some t) \<Rightarrow> t | _ \<Rightarrow> 0)"







text \<open>The routes of the server named by the specification, and those of line 188 to 234.\<close>

definition spec_routes :: "string list" where
  "spec_routes = [''/'', ''/api'', ''/stats'']"

definition routes :: "string list" where
  "routes = [''/'', ''/index.html'', ''/api'', ''/stats'']"

text \<open>The four counters of lines 15 to 18.\<close>

definition counters :: "state \<Rightarrow> nat \<times> nat \<times> nat \<times> nat" where
  "counters s = (fetchCount s, errorCount s, totalDataSize s, lastCharacterId s)"

text \<open>No counter is smaller afterwards.\<close>

definition grows :: "state \<Rightarrow> state \<Rightarrow> bool" where
  "grows s s' =
     (fetchCount s \<le> fetchCount s' \<and> errorCount s \<le> errorCount s'
      \<and> totalDataSize s \<le> totalDataSize s' \<and> lastCharacterId s \<le> lastCharacterId s')"

text \<open>The endpoints \<^verbatim>\<open>vehicles/1\<close> to \<^verbatim>\<open>vehicles/4\<close>, and the requests for a vehicle.\<close>

definition vehicle_endpoints :: "string list" where
  "vehicle_endpoints = map (\<lambda>k. ''vehicles/'' @ show_nat k) [1..<5]"

definition for_vehicle :: "fetch \<Rightarrow> bool" where
  "for_vehicle f = (take 9 (endpoint f) = ''vehicles/'')"

definition vehicle_request_ok :: "fetch \<Rightarrow> bool" where
  "vehicle_request_ok f = (if for_vehicle f then endpoint f \<in> set vehicle_endpoints else True)"

text \<open>A run that waits for its vehicle passed the test of line 134 and has not incremented yet.\<close>

fun before_increment :: "nat \<Rightarrow> run \<Rightarrow> bool" where
  "before_increment n (Waiting (Vehicle # ks) i) = (n \<le> MAX_VEHICLE_ID)"
| "before_increment n r = True"

text \<open>
  What holds of the process as long as runs do not overlap: the cursor is at most 5, only
  the run started last can be unfinished, and a run that waits for its vehicle found the
  cursor at most 4.
\<close>

definition apart_invariant :: "system \<Rightarrow> bool" where
  "apart_invariant sys =
     (lastCharacterId (globals sys) \<le> 5
      \<and> list_all (\<lambda>r. r = Finished) (butlast (runs sys))
      \<and> list_all (before_increment (lastCharacterId (globals sys))) (runs sys))"

section \<open>A runtime for the examples\<close>

text \<open>
  \<^verbatim>\<open>JSON.parse\<close>, the length of \<^verbatim>\<open>JSON.stringify\<close> and \<^verbatim>\<open>Date.parse\<close> on the response
  bodies and dates the examples use. \<open>parse_literal\<close> agrees with \<^verbatim>\<open>JSON.parse\<close> on the
  three bodies it accepts and on the body \<^verbatim>\<open><html>\<close>, which is not JSON; \<open>date_literal\<close>
  gives the two dates their milliseconds since 1970 in UTC.
\<close>

definition parse_literal :: "string \<Rightarrow> json option" where
  \<open>parse_literal b =
     (if b = ''null'' then Some JNull
      else if b = ''{}'' then Some (JObj [])
      else if b = ''{"results":[]}'' then Some (JObj [(''results'', JArr [])])
      else None)\<close>

definition stringify_length_literal :: "json \<Rightarrow> nat" where
  "stringify_length_literal j =
     (if j = JNull then 4 else if j = JObj [] then 2
      else if j = JObj [(''results'', JArr [])] then 14 else 0)"

definition date_literal :: "string \<Rightarrow> int option" where
  "date_literal d =
     (if d = ''1977-05-25'' then Some 233366400000
      else if d = ''1975-03-05'' then Some 163209600000
      else None)"

definition rt0 :: runtime where
  "rt0 = \<lparr> JSON_parse = parse_literal, JSON_stringify_length = stringify_length_literal,
           Date_parse = date_literal, ToNumber = (\<lambda>_. Inr None) \<rparr>"




text \<open>Two films with the dates of the specification's example, and a state that holds their page.\<close>

definition film_1977 :: json where
  "film_1977 = JObj [(''title'', JStr ''A''), (''release_date'', JStr ''1977-05-25''),
     (''director'', JStr ''D''), (''producer'', JStr ''P''),
     (''characters'', JArr [JStr ''c1'', JStr ''c2'']), (''planets'', JArr [JStr ''p1''])]"

definition film_1975 :: json where
  "film_1975 = JObj [(''title'', JStr ''B''), (''release_date'', JStr ''1975-03-05''),
     (''director'', JStr ''E''), (''producer'', JStr ''Q''),
     (''characters'', JArr []), (''planets'', JArr [])]"

definition films_page :: json where
  "films_page = JObj [(''count'', JNum 2), (''results'', JArr [film_1977, film_1975])]"

definition films_state :: state where
  "films_state = initial\<lparr>heap := (heap initial)(0 := films_page), nextRef := 1,
     cache := [(''films/'', 0)]\<rparr>"



text \<open>
  Five requests for \<^verbatim>\<open>/api\<close> that overlap. The first run receives its character, starship,
  planet and film pages and then waits for \<^verbatim>\<open>vehicles/1\<close>; four more runs start, find the
  pages in the cache and wait for \<^verbatim>\<open>vehicles/1\<close> as well; then the five responses arrive.
\<close>

definition reply :: "nat \<Rightarrow> string \<Rightarrow> action list" where
  "reply i content = [Net i (Response 200), Net i (Data content), Net i End]"

definition first_run_waits :: "action list" where
  \<open>first_run_waits =
     Http ''/api'' # reply 0 ''{}'' @ reply 1 ''{"results":[]}'' @ reply 2 ''{"results":[]}''
       @ reply 3 ''{"results":[]}''\<close>

definition four_more_runs :: "action list" where
  "four_more_runs = [Http ''/api'', Http ''/api'', Http ''/api'', Http ''/api'']"

definition vehicle_replies :: "action list" where
  "vehicle_replies = reply 4 ''{}'' @ reply 5 ''{}'' @ reply 6 ''{}'' @ reply 7 ''{}'' @ reply 8 ''{}''"

text \<open>The process after one request for \<^verbatim>\<open>/api\<close>, and a process whose cursor has passed 4.\<close>

definition one_run_started :: system where
  "one_run_started = exec rt0 (Http ''/api'') (boot [] ''3000'')"

definition cursor_past_limit :: system where
  "cursor_past_limit = \<lparr> globals = initial\<lparr>lastCharacterId := 5\<rparr>, requests = [], runs = [],
     sent = [] \<rparr>"

section \<open>Properties of the fetch client\<close>

lemma cached_hit:
  assumes "cache_get s e = Some v" "truthy s (Some v)"
  shows "fetchResource s e = (cached s e v, log_debug [Txt ''Using cached data for'', Txt e] s)"
  using assms by (simp add: fetchResource_def)

lemma uncached_request:
  "\<not> truthy s (cache_get s e) \<Longrightarrow> fetchResource s e = (request s e, s)"
  by (auto simp: fetchResource_def split: option.splits)

lemma deliver_all_Nil [simp]: "deliver_all rt [] fs = fs"
  by (simp add: deliver_all_def)

lemma deliver_all_Cons [simp]: "deliver_all rt (ev # evs) fs = deliver_all rt evs (deliver rt ev fs)"
  by (simp add: deliver_all_def)

lemma deliver_all_append: "deliver_all rt (xs @ ys) fs = deliver_all rt ys (deliver_all rt xs fs)"
  by (simp add: deliver_all_def)

lemma in_progress_step:
  assumes "in_progress ev" "issued f" "promise f = Pending"
  shows "\<exists>g. deliver rt ev (f, s) = (g, s) \<and> issued g \<and> promise g = Pending
           \<and> endpoint g = endpoint f \<and> aborted g = aborted f \<and> timer g = timer f"
  using assms by (cases ev) auto

lemma in_progress_keeps_pending:
  assumes "list_all in_progress pre" "issued f" "promise f = Pending"
  shows "\<exists>f'. deliver_all rt pre (f, s) = (f', s) \<and> issued f' \<and> promise f' = Pending
           \<and> endpoint f' = endpoint f \<and> aborted f' = aborted f \<and> timer f' = timer f"
  using assms
proof (induction pre arbitrary: f)
  case Nil
  then show ?case by simp
next
  case (Cons ev pre)
  obtain g where g: "deliver rt ev (f, s) = (g, s)" "issued g" "promise g = Pending"
      "endpoint g = endpoint f" "aborted g = aborted f" "timer g = timer f"
    using in_progress_step [of ev f rt s] Cons.prems by auto
  from Cons.prems have "list_all in_progress pre" by simp
  from Cons.IH [OF this g(2,3)] g show ?case by auto
qed

lemma data_chunks:
  assumes "issued f" "listening f"
  shows "deliver_all rt (map Data chunks) (f, s) = (f\<lparr>responseData := responseData f @ concat chunks\<rparr>, s)"
  using assms by (induction chunks arbitrary: f) auto





text \<open>
  The callback of the timer, lines 58 to 62: when the timer of an uncached fetch, set to
  the configured timeout, expires before the response has completed, the request is
  aborted, the promise is rejected with the error whose message names the endpoint, and
  the error counter has grown by one when the callback has run. The cache is as before.
\<close>

lemma timer_callback_counts_once:
  assumes "\<not> truthy s (cache_get s e)" and "list_all in_progress pre"
  shows "case fetch_with rt s e (pre @ [Timeout]) of (f, s') \<Rightarrow>
           timer f = timeout s \<and> aborted f
           \<and> promise f = Rejected (Error (''Request timeout for '' @ e))
           \<and> errorCount s' = errorCount s + 1 \<and> cache s' = cache s"
proof -
  have req: "fetchResource s e = (request s e, s)"
    using assms(1) by (rule uncached_request)
  obtain f' where f': "deliver_all rt pre (request s e, s) = (f', s)" "issued f'"
      "promise f' = Pending" "endpoint f' = e" "timer f' = timeout s"
    using in_progress_keeps_pending [OF assms(2), of "request s e" rt s]
    by (auto simp: request_def)
  show ?thesis
    by (simp add: fetch_with_def req deliver_all_append f' reject_def count_error_def
        timeout_error_def)
qed

text \<open>
  The listener of line 53 counts on its own: an error that the runtime reports for the
  request after the timer's callback is counted again, and the promise keeps the
  timeout error.
\<close>

lemma error_after_timeout_counts_again:
  assumes "\<not> truthy s (cache_get s e)" and "list_all in_progress pre"
  shows "case fetch_with rt s e (pre @ [Timeout, ErrorEv err]) of (f, s') \<Rightarrow>
           aborted f \<and> promise f = Rejected (Error (''Request timeout for '' @ e))
           \<and> errorCount s' = errorCount s + 2 \<and> cache s' = cache s"
proof -
  have req: "fetchResource s e = (request s e, s)"
    using assms(1) by (rule uncached_request)
  obtain f' where f': "deliver_all rt pre (request s e, s) = (f', s)" "issued f'"
      "promise f' = Pending" "endpoint f' = e"
    using in_progress_keeps_pending [OF assms(2), of "request s e" rt s]
    by (auto simp: request_def)
  show ?thesis
    by (simp add: fetch_with_def req deliver_all_append f' reject_def count_error_def
        timeout_error_def)
qed

text \<open>
  C2: a fetch of an uncached endpoint that times out should be aborted, fail with the
  timeout error and count one error at the fetch client. The first two hold. But when
  the timer expires before any response head has arrived, \<^verbatim>\<open>request.abort()\<close> of line 59
  makes the runtime report the aborted request to the \<^verbatim>\<open>'error'\<close> listener (socket hang
  up, \<^verbatim>\<open>ECONNRESET\<close>), and line 54 counts the same failure a second time: for a fetch of
  \<^verbatim>\<open>films/\<close> from the initial state the error counter is 1 after the timer's callback
  and 2 after the listener, where the other failures of the fetch client count once.
\<close>

theorem timeout_counted_twice:
  "(case fetch_with rt0 initial ''films/'' [Timeout] of (f, s') \<Rightarrow>
      issued f \<and> aborted f \<and> promise f = Rejected (Error ''Request timeout for films/'')
      \<and> errorCount s' = 1)
   \<and> (case fetch_with rt0 initial ''films/'' [Timeout, ErrorEv (SystemError ''ECONNRESET'')] of
        (f, s') \<Rightarrow>
          issued f \<and> aborted f \<and> promise f = Rejected (Error ''Request timeout for films/'')
          \<and> errorCount s' = 2 \<and> cache s' = [])
   \<and> errorCount initial = 0"
  by (simp add: fetch_with_def fetchResource_def cache_get_def initial_def Object_prototype_def
      request_def reject_def count_error_def timeout_error_def)





lemma fetch_success:
  assumes "\<not> truthy s (cache_get s e)" and "status < 400"
    and "JSON_parse rt (concat chunks) = Some j"
  shows "case fetch_with rt s e (Response status # map Data chunks @ [End]) of (f, s') \<Rightarrow>
           promise f = Resolved (Ref (nextRef s)) \<and> heap s' (nextRef s) = j
           \<and> map_of (cache s') = (map_of (cache s))(e \<mapsto> nextRef s)
           \<and> errorCount s' = errorCount s"
proof -
  have req: "fetchResource s e = (request s e, s)"
    using assms(1) by (rule uncached_request)
  let ?f = "(request s e)\<lparr>responded := True, listening := True\<rparr>"
  have step: "deliver rt (Response status) (request s e, s) = (?f, s)"
    using assms(2) by (simp add: request_def)
  have body: "deliver_all rt (map Data chunks) (?f, s)
                = (?f\<lparr>responseData := concat chunks\<rparr>, s)"
    using data_chunks [of ?f rt chunks s] by (simp add: request_def)
  have "fetch_with rt s e (Response status # map Data chunks @ [End])
          = deliver rt End (deliver_all rt (map Data chunks) (deliver rt (Response status) (request s e, s)))"
    by (simp add: fetch_with_def req deliver_all_append del: deliver.simps)
  also have "\<dots> = deliver rt End (?f\<lparr>responseData := concat chunks\<rparr>, s)"
    by (simp only: step body)
  finally show ?thesis
    using assms(3)
    by (simp add: on_end_def resolve_def request_def log_debug_def log_def Let_def update_conv')
qed




lemma show_nat_digit: "n < 10 \<Longrightarrow> show_nat n = [digit n]"
  by (subst show_nat.simps) simp

lemma show_nat_1 [simp]: "show_nat (Suc 0) = ''1''"
  by (simp add: show_nat_digit digit_def)

text \<open>
  C1, amended: when a first fetch of an endpoint has succeeded and stored a value that
  JavaScript takes as true, a second fetch of the endpoint is answered from the cache:
  no request is issued, the promise is resolved with the same reference, and the
  counters, the cache and the stored documents are as the first fetch left them.
\<close>

theorem second_fetch_answered_from_cache:
  assumes "\<not> truthy s (cache_get s e)" and "status < 400"
    and "JSON_parse rt (concat chunks) = Some j" and "json_truthy j"
  shows "case fetch_with rt s e (Response status # map Data chunks @ [End]) of (f1, s1) \<Rightarrow>
           promise f1 = Resolved (Ref (nextRef s)) \<and> heap s1 (nextRef s) = j
           \<and> (case fetchResource s1 e of (f2, s2) \<Rightarrow>
                 \<not> issued f2 \<and> promise f2 = Resolved (Ref (nextRef s))
                 \<and> counters s2 = counters s1 \<and> cache s2 = cache s1 \<and> heap s2 = heap s1)"
proof -
  obtain f1 s1 where f1: "fetch_with rt s e (Response status # map Data chunks @ [End]) = (f1, s1)"
    by (cases "fetch_with rt s e (Response status # map Data chunks @ [End])")
  from fetch_success [OF assms(1,2,3)] f1
  have p: "promise f1 = Resolved (Ref (nextRef s))" and h: "heap s1 (nextRef s) = j"
    and c: "map_of (cache s1) = (map_of (cache s))(e \<mapsto> nextRef s)"
    by simp_all
  have g: "cache_get s1 e = Some (Ref (nextRef s))"
    by (simp add: cache_get_def c)
  have t: "truthy s1 (Some (Ref (nextRef s)))"
    using h assms(4) by simp
  have "fetchResource s1 e
          = (cached s1 e (Ref (nextRef s)), log_debug [Txt ''Using cached data for'', Txt e] s1)"
    by (rule cached_hit [OF g t])
  then show ?thesis
    using p h by (simp add: f1 cached_def log_debug_def log_def counters_def)
qed

theorem second_fetch_answered_from_cache_witness:
  "\<not> truthy initial (cache_get initial ''people/1'') \<and> (200::nat) < 400
   \<and> JSON_parse rt0 (concat [''{'', ''}'']) = Some (JObj []) \<and> json_truthy (JObj [])
   \<and> (case fetch_with rt0 initial ''people/1'' (Response 200 # map Data [''{'', ''}''] @ [End]) of
         (f1, s1) \<Rightarrow>
           promise f1 = Resolved (Ref (nextRef initial)) \<and> heap s1 (nextRef initial) = JObj []
           \<and> (case fetchResource s1 ''people/1'' of (f2, s2) \<Rightarrow>
                 \<not> issued f2 \<and> promise f2 = Resolved (Ref (nextRef initial))
                 \<and> counters s2 = counters s1 \<and> cache s2 = cache s1 \<and> heap s2 = heap s1))"
proof -
  have a: "\<not> truthy initial (cache_get initial ''people/1'')"
    by (simp add: cache_get_def initial_def Object_prototype_def)
  have b: "(200::nat) < 400" by simp
  have c: "JSON_parse rt0 (concat [''{'', ''}'']) = Some (JObj [])"
    by (simp add: rt0_def parse_literal_def)
  have d: "json_truthy (JObj [])" by simp
  from second_fetch_answered_from_cache [OF a b c d] a b c d show ?thesis by blast
qed

text \<open>
  C1 as stated fails for two kinds of first fetch. A fetch that fails stores nothing, so
  that the second call issues a request again. And the guard of line 21 tests the cached
  value for truth, not the key for presence: after a first fetch of \<^verbatim>\<open>people/1\<close> whose
  body is \<^verbatim>\<open>null\<close> the value is stored, and the second call issues a request again.
\<close>

theorem second_fetch_goes_to_network:
  "(case fetch_with rt0 initial ''people/1'' [Response 500] of (f1, s1) \<Rightarrow>
      promise f1 = Rejected (http_error 500) \<and> cache s1 = []
      \<and> (case fetchResource s1 ''people/1'' of (f2, s2) \<Rightarrow> issued f2 \<and> promise f2 = Pending))
   \<and> (case fetch_with rt0 initial ''people/1'' [Response 200, Data ''null'', End] of (f1, s1) \<Rightarrow>
      promise f1 = Resolved (Ref 0) \<and> heap s1 0 = JNull \<and> map_of (cache s1) ''people/1'' = Some 0
      \<and> (case fetchResource s1 ''people/1'' of (f2, s2) \<Rightarrow> issued f2 \<and> promise f2 = Pending))"
  by (simp add: fetch_with_def fetchResource_def cache_get_def initial_def
     Object_prototype_def request_def on_end_def rt0_def parse_literal_def resolve_def reject_def
     count_error_def log_debug_def log_def cache_size_def Let_def)

text \<open>
  C3: an entry of the cache should never be updated once it is present. After the same
  first fetch, a second fetch of \<^verbatim>\<open>people/1\<close> whose body is \<^verbatim>\<open>{}\<close> replaces the entry:
  the endpoint then refers to another document.
\<close>

theorem falsy_entry_overwritten:
  "case fetch_with rt0 initial ''people/1'' [Response 200, Data ''null'', End] of (f1, s1) \<Rightarrow>
     case fetch_with rt0 s1 ''people/1'' [Response 200, Data ''{}'', End] of (f2, s2) \<Rightarrow>
       map_of (cache s1) ''people/1'' = Some 0 \<and> heap s1 0 = JNull
       \<and> map_of (cache s2) ''people/1'' = Some 1 \<and> heap s2 1 = JObj []
       \<and> promise f2 = Resolved (Ref 1)"
  by (simp add: fetch_with_def fetchResource_def cache_get_def initial_def
     Object_prototype_def request_def on_end_def rt0_def parse_literal_def resolve_def
     log_debug_def log_def cache_size_def Let_def)
section \<open>Properties of the display routines\<close>

lemma andThen_Inr [simp]: "andThen (Inr a) k = k a"
  by (simp add: andThen_def)

lemma andThen_Inl [simp]: "andThen (Inl e) k = Inl e"
  by (simp add: andThen_def)





















lemma mset_insert_by: "mset (insert_by cmp x ys) = add_mset x (mset ys)"
  by (induction ys) auto

lemma mset_Array_sort: "mset (Array_sort cmp xs) = mset xs"
  by (induction xs) (auto simp: Array_sort_def mset_insert_by)

lemma set_insert_by: "set (insert_by cmp x ys) = insert x (set ys)"
  by (induction ys) auto

lemma set_Array_sort: "set (Array_sort cmp xs) = set xs"
  using mset_Array_sort [of cmp xs] by (metis set_mset_mset)

lemma sorted_insert_by:
  assumes "\<And>a b. a \<in> insert x (set ys) \<Longrightarrow> b \<in> insert x (set ys) \<Longrightarrow> cmp a b = key a - key b"
    and "sorted_wrt (\<lambda>a b. key a \<le> (key b :: int)) ys"
  shows "sorted_wrt (\<lambda>a b. key a \<le> key b) (insert_by cmp x ys)"
  using assms
proof (induction ys)
  case Nil
  then show ?case by simp
next
  case (Cons y ys)
  have xy: "cmp x y = key x - key y"
    by (rule Cons.prems(1)) simp_all
  show ?case
  proof (cases "cmp x y \<le> 0")
    case True
    then have "key x \<le> key y" by (simp add: xy)
    with Cons.prems(2) show ?thesis using True by auto
  next
    case False
    then have yx: "key y \<le> key x" by (simp add: xy)
    have "sorted_wrt (\<lambda>a b. key a \<le> key b) (insert_by cmp x ys)"
    proof (rule Cons.IH)
      show "sorted_wrt (\<lambda>a b. key a \<le> key b) ys" using Cons.prems(2) by simp
    next
      fix a b assume "a \<in> insert x (set ys)" "b \<in> insert x (set ys)"
      then show "cmp a b = key a - key b" by (intro Cons.prems(1)) auto
    qed
    with Cons.prems(2) yx show ?thesis using False by (auto simp: set_insert_by)
  qed
qed

lemma sorted_Array_sort:
  assumes "\<And>a b. a \<in> set xs \<Longrightarrow> b \<in> set xs \<Longrightarrow> cmp a b = key a - key b"
  shows "sorted_wrt (\<lambda>a b. key a \<le> (key b :: int)) (Array_sort cmp xs)"
  using assms
proof (induction xs)
  case Nil
  then show ?case by (simp add: Array_sort_def)
next
  case (Cons x xs)
  have ih: "sorted_wrt (\<lambda>a b. key a \<le> key b) (Array_sort cmp xs)"
    by (rule Cons.IH) (simp add: Cons.prems)
  have "sorted_wrt (\<lambda>a b. key a \<le> key b) (insert_by cmp x (Array_sort cmp xs))"
  proof (rule sorted_insert_by [OF _ ih])
    fix a b assume "a \<in> insert x (set (Array_sort cmp xs))" "b \<in> insert x (set (Array_sort cmp xs))"
    then show "cmp a b = key a - key b"
      by (intro Cons.prems) (auto simp: set_Array_sort)
  qed
  then show ?case by (simp add: Array_sort_def)
qed

lemma film_times_dated:
  assumes "list_all (dated rt) films"
  shows "film_times rt films = Inr (map (\<lambda>film. (Some (release_time rt film), film)) films)"
  using assms
proof (induction films)
  case Nil
  then show ?case by simp
next
  case (Cons film films)
  from Cons.prems have "film_time rt film = Inr (Some (release_time rt film))"
    by (auto simp: dated_def release_time_def split: sum.splits option.splits)
  with Cons show ?case by (simp add: andThen_def)
qed

lemma sort_films_dated:
  assumes "list_all (dated rt) films"
  shows "\<exists>out. sort_films rt films = Inr out \<and> mset out = mset films
           \<and> sorted_wrt (\<lambda>a b. release_time rt a \<le> release_time rt b) out"
proof (cases "length films < 2")
  case True
  then have "films = [] \<or> (\<exists>x. films = [x])"
    by (cases films) (auto simp: length_Suc_conv)
  then show ?thesis by (auto simp: sort_films_def)
next
  case False
  let ?keyed = "map (\<lambda>film. (Some (release_time rt film), film)) films"
  let ?cmp = "\<lambda>a b. compare_times (fst a) (fst b)"
  let ?key = "\<lambda>p. release_time rt (snd p)"
  let ?out = "map snd (Array_sort ?cmp ?keyed)"
  have eq: "sort_films rt films = Inr ?out"
    using False by (simp add: sort_films_def film_times_dated [OF assms] andThen_def)
  have "mset ?out = image_mset snd (mset (Array_sort ?cmp ?keyed))" by simp
  also have "\<dots> = image_mset snd (mset ?keyed)" by (simp only: mset_Array_sort)
  also have "\<dots> = mset films" by (simp add: image_mset.compositionality comp_def)
  finally have m: "mset ?out = mset films" .
  have "sorted_wrt (\<lambda>a b. ?key a \<le> ?key b) (Array_sort ?cmp ?keyed)"
    by (rule sorted_Array_sort) (auto simp: compare_times_def)
  then have "sorted_wrt (\<lambda>a b. release_time rt a \<le> release_time rt b) ?out"
    by (simp add: sorted_wrt_map)
  with eq m show ?thesis by blast
qed









lemma film_1977_time: "film_time rt0 film_1977 = Inr (Some 233366400000)"
  by (simp add: film_time_def film_1977_def date_value_def rt0_def date_literal_def)

lemma film_1975_time: "film_time rt0 film_1975 = Inr (Some 163209600000)"
  by (simp add: film_time_def film_1975_def date_value_def rt0_def date_literal_def)

lemma example_films_sorted:
  "sort_films rt0 [film_1977, film_1975] = Inr [film_1975, film_1977]
   \<and> sort_films rt0 [film_1975, film_1977] = Inr [film_1975, film_1977]"
  by (simp add: sort_films_def film_1977_time film_1975_time Array_sort_def compare_times_def)







lemma example_films_console:
  "console (snd (displayFilms rt0 0 films_state)) =
     [ [Txt (CHR 0x0A # ''Star Wars Films in chronological order:'')],
       [Txt ''1. B (1975-03-05)''], [Txt ''   Director: E''], [Txt ''   Producer: Q''],
       [Txt ''   Characters: 0''], [Txt ''   Planets: 0''],
       [Txt ''2. A (1977-05-25)''], [Txt ''   Director: D''], [Txt ''   Producer: P''],
       [Txt ''   Characters: 2''], [Txt ''   Planets: 1''] ]"
  apply (simp add: displayFilms_def Let_def films_state_def films_page_def results_array_def
     andThen_def example_films_sorted print_def films_stmts_def film_stmts_def add_size_def initial_def)
  apply (simp add: film_1977_def film_1975_def say_template_def sub_def lit_def say_def andThen_def
      to_string_def show_int_def show_nat.simps digit_def)
  done

text \<open>
  The sort of line 122 is in place: after the display, the document that the cache holds
  for \<^verbatim>\<open>films/\<close> has its films in the sorted order.
\<close>

lemma sort_changes_cached_document:
  "map_of (cache films_state) ''films/'' = Some 0
   \<and> results_array (heap films_state 0) = Inr [film_1977, film_1975]
   \<and> results_array (heap (snd (displayFilms rt0 0 films_state)) 0) = Inr [film_1975, film_1977]"
  by (simp add: displayFilms_def Let_def films_state_def films_page_def results_array_def
      andThen_def example_films_sorted print_def with_results_def add_size_def
      split: prod.splits)

section \<open>Properties of the server\<close>

lemma url_path_route: "url \<in> set routes \<Longrightarrow> url_path url = url"
  by (auto simp: routes_def url_path_def)

lemma server_not_found:
  "url \<notin> set routes \<Longrightarrow>
     server rt url sys = (\<lparr> statusCode = 404, contentType = ''text/plain'', body = Plain ''Not Found'' \<rparr>, sys)"
  by (simp add: server_def routes_def Let_def)

text \<open>
  C8, amended: a request whose path is none of \<^verbatim>\<open>/\<close>, \<^verbatim>\<open>/index.html\<close>, \<^verbatim>\<open>/api\<close> and
  \<^verbatim>\<open>/stats\<close> is answered with status 404, content type \<^verbatim>\<open>text/plain\<close> and the body
  \<^verbatim>\<open>Not Found\<close>, and changes nothing in the process.
\<close>

theorem unknown_path_not_found:
  assumes "url_path url \<notin> set routes"
  shows "statusCode (fst (server rt url sys)) = 404
       \<and> contentType (fst (server rt url sys)) = ''text/plain''
       \<and> body (fst (server rt url sys)) = Plain ''Not Found''
       \<and> snd (server rt url sys) = sys"
proof -
  have "url \<notin> set routes"
    using assms url_path_route by force
  then show ?thesis by (simp add: server_not_found)
qed

theorem unknown_path_not_found_witness:
  "url_path ''/films?page=2'' \<notin> set routes
   \<and> statusCode (fst (server rt0 ''/films?page=2'' (boot [] ''3000''))) = 404
   \<and> contentType (fst (server rt0 ''/films?page=2'' (boot [] ''3000''))) = ''text/plain''
   \<and> body (fst (server rt0 ''/films?page=2'' (boot [] ''3000''))) = Plain ''Not Found''
   \<and> snd (server rt0 ''/films?page=2'' (boot [] ''3000'')) = boot [] ''3000''"
proof -
  have a: "url_path ''/films?page=2'' \<notin> set routes"
    by (simp add: url_path_def routes_def)
  from unknown_path_not_found [OF a] a show ?thesis by blast
qed

text \<open>
  C8 as stated fails: \<^verbatim>\<open>/index.html\<close> is none of the three routes \<^verbatim>\<open>/\<close>, \<^verbatim>\<open>/api\<close> and
  \<^verbatim>\<open>/stats\<close>, and line 188 serves the page for it.
\<close>

theorem index_html_is_served:
  "url_path ''/index.html'' \<notin> set spec_routes
   \<and> statusCode (fst (server rt0 ''/index.html'' (boot [] ''3000''))) = 200
   \<and> contentType (fst (server rt0 ''/index.html'' (boot [] ''3000''))) = ''text/html''"
  by (simp add: url_path_def spec_routes_def server_def Let_def)

section \<open>Properties of the process\<close>

lemma grows_refl [simp]: "grows s s"
  by (simp add: grows_def)

lemma grows_trans: "grows s t \<Longrightarrow> grows t u \<Longrightarrow> grows s u"
  by (auto simp: grows_def)

lemma counters_grows: "counters t = counters s \<Longrightarrow> grows s t"
  by (simp add: counters_def grows_def)

lemma counters_log [simp]: "counters (log l s) = counters s"
  by (simp add: counters_def log_def)

lemma counters_log_debug [simp]: "counters (log_debug l s) = counters s"
  by (simp add: log_debug_def)

lemma counters_fetchResource: "counters (snd (fetchResource s e)) = counters s"
  by (simp add: fetchResource_def split: option.splits)

lemma counters_deliver:
  "case deliver rt ev (f, s) of (f', s') \<Rightarrow>
     fetchCount s' = fetchCount s \<and> totalDataSize s' = totalDataSize s
     \<and> lastCharacterId s' = lastCharacterId s
     \<and> errorCount s \<le> errorCount s' \<and> errorCount s' \<le> errorCount s + 1"
  by (cases ev)
    (auto simp: count_error_def on_end_def Let_def log_debug_def log_def split: option.splits)

lemma counters_print:
  "counters (snd (print stmts s)) = counters s"
  by (simp add: print_def counters_def split: prod.splits)

lemma counters_add_size:
  "counters (add_size rt doc s)
     = (fetchCount s, errorCount s, totalDataSize s + JSON_stringify_length rt doc, lastCharacterId s)"
  by (simp add: add_size_def counters_def)

lemma counters_displayFilms:
  "counters (snd (displayFilms rt r s))
     = (fetchCount s, errorCount s, totalDataSize s + JSON_stringify_length rt (heap s r),
        lastCharacterId s)"
  using counters_add_size [of rt "heap s r" s]
  by (auto simp: displayFilms_def Let_def print_def counters_def split: sum.splits prod.splits)

lemma counters_resume:
  "case resume rt k v s of (r, s') \<Rightarrow>
     fetchCount s' = fetchCount s \<and> errorCount s' = errorCount s
     \<and> totalDataSize s \<le> totalDataSize s'
     \<and> lastCharacterId s' = lastCharacterId s + (if k = Vehicle \<and> r = None then 1 else 0)"
proof (cases v)
  case (Builtin n)
  then show ?thesis by (simp add: resume_def)
next
  case (Ref r)
  show ?thesis
  proof (cases k)
    case Films
    with Ref counters_displayFilms [of rt r s] show ?thesis
      by (auto simp: resume_def counters_def split: prod.splits)
  qed (use Ref in \<open>auto simp: resume_def displayCharacterData_def displayStarships_def
        displayLargePlanets_def displayVehicle_def print_def add_size_def
        split: prod.splits option.splits\<close>)
qed

lemma grows_resume: "grows s (snd (resume rt k v s))"
  using counters_resume [where rt = rt and k = k and v = v and s = s] by (auto simp: grows_def split: prod.splits)

lemma counters_displayStats [simp]: "counters (displayStats s) = counters s"
  by (simp add: displayStats_def counters_def)

lemma counters_runDemo_begin:
  "counters (runDemo_begin s) = (fetchCount s + 1, errorCount s, totalDataSize s, lastCharacterId s)"
  by (simp add: runDemo_begin_def counters_def log_debug_def log_def Let_def)

lemma counters_runDemo_catch:
  "counters (runDemo_catch e s) = (fetchCount s, errorCount s + 1, totalDataSize s, lastCharacterId s)"
  by (simp add: runDemo_catch_def counters_def count_error_def log_def)

lemma grows_runDemo_catch: "grows s (runDemo_catch e s)"
  using counters_runDemo_catch [of e s] by (simp add: grows_def counters_def)

lemma grows_runDemo_steps:
  "grows (globals sys) (globals (snd (runDemo_steps rt ks sys)))"
proof (induction ks arbitrary: sys)
  case Nil
  then show ?case by (simp add: counters_grows)
next
  case (Cons k ks)
  show ?case
  proof (cases "route k (globals sys)")
    case None
    with Cons.IH [of sys] show ?thesis by simp
  next
    case (Some e)
    obtain f s1 where f: "fetchResource (globals sys) e = (f, s1)"
      by (cases "fetchResource (globals sys) e")
    have g1: "grows (globals sys) s1"
      using counters_fetchResource [of "globals sys" e] f by (simp add: counters_grows)
    show ?thesis
    proof (cases "promise f")
      case Pending
      with Some f g1 show ?thesis by simp
    next
      case (Rejected err)
      with Some f show ?thesis
        using grows_trans [OF g1 grows_runDemo_catch [of s1 err]] by simp
    next
      case (Resolved v)
      obtain r s2 where r: "resume rt k v s1 = (r, s2)" by (cases "resume rt k v s1")
      have g2: "grows (globals sys) s2"
        using grows_trans [OF g1 grows_resume [of s1 rt k v]] r by simp
      show ?thesis
      proof (cases r)
        case None
        with Some f Resolved r show ?thesis
          using grows_trans [OF g2] Cons.IH [of "sys\<lparr>globals := s2\<rparr>"] by simp
      next
        case (Some err)
        with \<open>route k (globals sys) = Some e\<close> f Resolved r show ?thesis
          using grows_trans [OF g2 grows_runDemo_catch [of s2 err]] by simp
      qed
    qed
  qed
qed

lemma grows_runDemo: "grows (globals sys) (globals (runDemo rt sys))"
proof -
  let ?sys = "sys\<lparr>globals := runDemo_begin (globals sys)\<rparr>"
  obtain r sys' where r: "runDemo_steps rt [Character, Starships, Planets, Films, Vehicle] ?sys = (r, sys')"
    by (cases "runDemo_steps rt [Character, Starships, Planets, Films, Vehicle] ?sys")
  have a: "grows (globals sys) (runDemo_begin (globals sys))"
    using counters_runDemo_begin [of "globals sys"] by (simp add: grows_def counters_def)
  have b: "grows (runDemo_begin (globals sys)) (globals sys')"
    using grows_runDemo_steps [of ?sys rt "[Character, Starships, Planets, Films, Vehicle]"] r
    by (simp del: runDemo_steps.simps)
  have "globals (runDemo rt sys) = globals sys'"
    by (simp add: runDemo_def r del: runDemo_steps.simps)
  with grows_trans [OF a b] show ?thesis by simp
qed

lemma grows_continue_run: "grows (globals sys) (globals (continue_run rt j sys))"
proof (cases "runs sys ! j")
  case Finished
  then show ?thesis by (simp add: continue_run_def)
next
  case (Waiting ks i)
  show ?thesis
  proof (cases ks)
    case Nil
    with Waiting show ?thesis by (simp add: continue_run_def)
  next
    case (Cons k ks')
    show ?thesis
    proof (cases "promise (requests sys ! i)")
      case Pending
      with Waiting Cons show ?thesis by (simp add: continue_run_def)
    next
      case (Rejected e)
      with Waiting Cons show ?thesis by (simp add: continue_run_def grows_runDemo_catch)
    next
      case (Resolved v)
      obtain r s' where r: "resume rt k v (globals sys) = (r, s')"
        by (cases "resume rt k v (globals sys)")
      have g: "grows (globals sys) s'" using grows_resume [of "globals sys" rt k v] r by simp
      show ?thesis
      proof (cases r)
        case None
        obtain r' sys' where r': "runDemo_steps rt ks' (sys\<lparr>globals := s'\<rparr>) = (r', sys')"
          by (cases "runDemo_steps rt ks' (sys\<lparr>globals := s'\<rparr>)")
        have "grows s' (globals sys')"
          using grows_runDemo_steps [of "sys\<lparr>globals := s'\<rparr>" rt ks'] r' by simp
        with grows_trans [OF g] have "grows (globals sys) (globals sys')" by blast
        with Waiting Cons Resolved r None r' show ?thesis
          by (simp add: continue_run_def)
      next
        case (Some e)
        with Waiting Cons Resolved r show ?thesis
          using grows_trans [OF g grows_runDemo_catch [of s' e]]
          by (simp add: continue_run_def)
      qed
    qed
  qed
qed

lemma grows_net: "grows (globals sys) (globals (net rt i ev sys))"
proof (cases "i < length (requests sys)")
  case False
  then show ?thesis by (simp add: net_def)
next
  case True
  obtain f' s' where d: "deliver rt ev (requests sys ! i, globals sys) = (f', s')"
    by (cases "deliver rt ev (requests sys ! i, globals sys)")
  have g: "grows (globals sys) s'"
    using counters_deliver [where rt = rt and ev = ev and f = "requests sys ! i" and s = "globals sys"] d by (simp add: grows_def)
  let ?sys1 = "sys\<lparr>globals := s', requests := (requests sys)[i := f']\<rparr>"
  show ?thesis
  proof (cases "waiting_run i (runs ?sys1)")
    case None
    with True d g show ?thesis by (simp add: net_def)
  next
    case (Some j)
    with True d show ?thesis
      using grows_trans [OF g] grows_continue_run [of ?sys1 rt j]
      by (simp add: net_def)
  qed
qed

lemma server_effect: "snd (server rt url sys) = (if url = ''/api'' then runDemo rt sys else sys)"
  by (simp add: server_def Let_def)

lemma grows_exec: "grows (globals sys) (globals (exec rt a sys))"
proof (cases a)
  case (Http url)
  have "globals (exec rt (Http url) sys) = globals (snd (server rt url sys))"
    by (simp split: prod.splits)
  with Http show ?thesis by (simp add: server_effect grows_runDemo)
next
  case (Net i ev)
  then show ?thesis by (simp add: grows_net)
qed

text \<open>
  C9, amended: no step of the process makes any of the four counters smaller. The
  attempt counter is incremented by \<^verbatim>\<open>runDemo\<close> when it starts, and by nothing else; the
  error counter by the failure handlers of the fetch client, by at most one per event,
  and by the \<^verbatim>\<open>catch\<close> of \<^verbatim>\<open>runDemo\<close>; the size counter by the display routines; the
  cursor by \<^verbatim>\<open>displayVehicle\<close> alone, by one when it completes. A request to the server
  touches the state only through the run that \<^verbatim>\<open>/api\<close> starts.
\<close>

theorem counters_only_grow:
  "grows (globals sys) (globals (exec rt a sys))
   \<and> snd (server rt url sys) = (if url = ''/api'' then runDemo rt sys else sys)
   \<and> counters (runDemo_begin s) = (fetchCount s + 1, errorCount s, totalDataSize s, lastCharacterId s)
   \<and> counters (runDemo_catch e s) = (fetchCount s, errorCount s + 1, totalDataSize s, lastCharacterId s)
   \<and> counters (displayStats s) = counters s
   \<and> counters (snd (fetchResource s path)) = counters s
   \<and> (case deliver rt ev (f, s) of (f', s') \<Rightarrow>
         fetchCount s' = fetchCount s \<and> totalDataSize s' = totalDataSize s
         \<and> lastCharacterId s' = lastCharacterId s
         \<and> errorCount s \<le> errorCount s' \<and> errorCount s' \<le> errorCount s + 1)
   \<and> (case resume rt k v s of (r, s') \<Rightarrow>
         fetchCount s' = fetchCount s \<and> errorCount s' = errorCount s
         \<and> totalDataSize s \<le> totalDataSize s'
         \<and> lastCharacterId s' = lastCharacterId s + (if k = Vehicle \<and> r = None then 1 else 0))"
  using grows_exec [of sys rt a] server_effect [of rt url sys] counters_runDemo_begin [of s]
    counters_runDemo_catch [of e s] counters_displayStats [of s]
    counters_fetchResource [of s path]
    counters_deliver [where rt = rt and ev = ev and f = f and s = s]
    counters_resume [where rt = rt and k = k and v = v and s = s]
  by blast

text \<open>
  C9 as stated fails: \<^verbatim>\<open>runDemo\<close>, which is neither the fetch client nor the vehicle
  display, increments the attempt counter (line 163) and the error counter (line 173),
  and \<^verbatim>\<open>displayCharacterData\<close> adds to the size counter (line 68).
\<close>

theorem orchestrator_mutates_counters:
  "fetchCount initial = 0 \<and> fetchCount (runDemo_begin initial) = 1
   \<and> errorCount initial = 0 \<and> errorCount (runDemo_catch TypeError initial) = 1
   \<and> totalDataSize initial = 0
   \<and> totalDataSize (snd (displayCharacterData rt0 (JObj []) initial)) = 2"
  by (simp add: initial_def runDemo_begin_def runDemo_catch_def count_error_def log_def
      log_debug_def displayCharacterData_def print_def add_size_def rt0_def
      stringify_length_literal_def split: prod.splits)

lemma boot_cursor: "lastCharacterId (globals (boot args port)) = 1"
  by (simp add: boot_def announce_def configure_def initial_def log_def Let_def
      split: option.splits)

lemma cursor_exec: "lastCharacterId (globals sys) \<le> lastCharacterId (globals (exec rt a sys))"
  using grows_exec [of sys rt a] by (simp add: grows_def)

lemma reachable_cursor: "reachable rt sys \<Longrightarrow> 1 \<le> lastCharacterId (globals sys)"
proof (induction rule: reachable.induct)
  case (start args port)
  then show ?case by (simp add: boot_cursor)
next
  case (step sys a)
  with cursor_exec [of sys rt a] show ?case by simp
qed

lemma endpoint_fetchResource: "endpoint (fst (fetchResource s e)) = e"
  by (simp add: fetchResource_def request_def cached_def split: option.splits)

lemma cursor_fetchResource: "lastCharacterId (snd (fetchResource s e)) = lastCharacterId s"
  using counters_fetchResource [of s e] by (simp add: counters_def)

lemma endpoint_deliver: "endpoint (fst (deliver rt ev (f, s))) = endpoint f"
  by (cases ev) (auto simp: reject_def resolve_def on_end_def Let_def split: option.splits)

lemma route_ok:
  assumes "route k s = Some e" and "1 \<le> lastCharacterId s" and "endpoint f = e"
  shows "vehicle_request_ok f"
proof (cases k)
  case Vehicle
  with assms(1) have "lastCharacterId s \<le> 4" and e: "e = ''vehicles/'' @ show_nat (lastCharacterId s)"
    by (auto simp: MAX_VEHICLE_ID_def split: if_splits)
  with assms(2) have "lastCharacterId s \<in> set [1..<5]" by simp
  then have "e \<in> (\<lambda>k. ''vehicles/'' @ show_nat k) ` set [1..<5]"
    unfolding e by (rule imageI)
  then have "e \<in> set vehicle_endpoints"
    by (simp only: vehicle_endpoints_def set_map)
  with assms(3) show ?thesis by (simp add: vehicle_request_ok_def)
qed (use assms in \<open>auto simp: vehicle_request_ok_def for_vehicle_def\<close>)

lemma requests_runDemo_steps:
  assumes "1 \<le> lastCharacterId (globals sys)" and "list_all vehicle_request_ok (requests sys)"
  shows "list_all vehicle_request_ok (requests (snd (runDemo_steps rt ks sys)))"
  using assms
proof (induction ks arbitrary: sys)
  case Nil
  then show ?case by simp
next
  case (Cons k ks)
  show ?case
  proof (cases "route k (globals sys)")
    case None
    with Cons show ?thesis by simp
  next
    case (Some e)
    obtain f s1 where f: "fetchResource (globals sys) e = (f, s1)"
      by (cases "fetchResource (globals sys) e")
    have ef: "endpoint f = e" using endpoint_fetchResource [of "globals sys" e] f by simp
    have c1: "lastCharacterId s1 = lastCharacterId (globals sys)"
      using cursor_fetchResource [of "globals sys" e] f by simp
    show ?thesis
    proof (cases "promise f")
      case Pending
      from route_ok [OF Some Cons.prems(1) ef] Cons.prems(2) Some f Pending
      show ?thesis by simp
    next
      case (Rejected err)
      with Some f Cons.prems(2) show ?thesis by simp
    next
      case (Resolved v)
      obtain r s2 where r: "resume rt k v s1 = (r, s2)" by (cases "resume rt k v s1")
      have c2: "1 \<le> lastCharacterId s2"
        using counters_resume [where rt = rt and k = k and v = v and s = s1] r c1 Cons.prems(1)
        by simp
      show ?thesis
      proof (cases r)
        case None
        have "list_all vehicle_request_ok (requests (snd (runDemo_steps rt ks (sys\<lparr>globals := s2\<rparr>))))"
          by (rule Cons.IH) (use c2 Cons.prems(2) in simp_all)
        with \<open>route k (globals sys) = Some e\<close> f Resolved r None show ?thesis by simp
      next
        case (Some err)
        with \<open>route k (globals sys) = Some e\<close> f Resolved r Cons.prems(2) show ?thesis by simp
      qed
    qed
  qed
qed

lemma runs_runDemo_steps: "runs (snd (runDemo_steps rt ks sys)) = runs sys"
proof (induction ks arbitrary: sys)
  case Nil
  then show ?case by simp
next
  case (Cons k ks)
  then show ?case
    by (auto split: option.splits prod.splits outcome.splits)
qed

lemma requests_runDemo:
  assumes "1 \<le> lastCharacterId (globals sys)" and "list_all vehicle_request_ok (requests sys)"
  shows "list_all vehicle_request_ok (requests (runDemo rt sys))"
proof -
  let ?sys = "sys\<lparr>globals := runDemo_begin (globals sys)\<rparr>"
  obtain r sys' where r: "runDemo_steps rt [Character, Starships, Planets, Films, Vehicle] ?sys = (r, sys')"
    by (cases "runDemo_steps rt [Character, Starships, Planets, Films, Vehicle] ?sys")
  have "1 \<le> lastCharacterId (globals ?sys)"
    using assms(1) counters_runDemo_begin [of "globals sys"] by (simp add: counters_def)
  moreover have "list_all vehicle_request_ok (requests ?sys)" using assms(2) by simp
  ultimately have "list_all vehicle_request_ok (requests (snd (runDemo_steps rt [Character, Starships, Planets, Films, Vehicle] ?sys)))"
    by (rule requests_runDemo_steps)
  then show ?thesis by (simp add: runDemo_def r del: runDemo_steps.simps)
qed

lemma requests_continue_run:
  assumes "1 \<le> lastCharacterId (globals sys)" and "list_all vehicle_request_ok (requests sys)"
  shows "list_all vehicle_request_ok (requests (continue_run rt j sys))"
proof (cases "runs sys ! j")
  case Finished
  with assms show ?thesis by (simp add: continue_run_def)
next
  case (Waiting ks i)
  show ?thesis
  proof (cases ks)
    case Nil
    with Waiting assms show ?thesis by (simp add: continue_run_def)
  next
    case (Cons k ks')
    show ?thesis
    proof (cases "promise (requests sys ! i)")
      case Pending
      with Waiting Cons assms show ?thesis by (simp add: continue_run_def)
    next
      case (Rejected e)
      with Waiting Cons assms show ?thesis by (simp add: continue_run_def)
    next
      case (Resolved v)
      obtain r s' where r: "resume rt k v (globals sys) = (r, s')"
        by (cases "resume rt k v (globals sys)")
      have c: "1 \<le> lastCharacterId s'"
        using counters_resume [where rt = rt and k = k and v = v and s = "globals sys"] r assms(1)
        by simp
      show ?thesis
      proof (cases r)
        case None
        obtain r' sys' where r': "runDemo_steps rt ks' (sys\<lparr>globals := s'\<rparr>) = (r', sys')"
          by (cases "runDemo_steps rt ks' (sys\<lparr>globals := s'\<rparr>)")
        have "list_all vehicle_request_ok (requests (snd (runDemo_steps rt ks' (sys\<lparr>globals := s'\<rparr>))))"
          by (rule requests_runDemo_steps) (use c assms(2) in simp_all)
        with Waiting Cons Resolved r None r' show ?thesis
          by (simp add: continue_run_def)
      next
        case (Some e)
        with Waiting Cons Resolved r assms(2) show ?thesis
          by (simp add: continue_run_def)
      qed
    qed
  qed
qed

lemma list_all_update:
  "list_all P xs \<Longrightarrow> P x \<Longrightarrow> list_all P (xs[i := x])"
  by (induction xs arbitrary: i) (auto split: nat.splits)

lemma requests_net:
  assumes "1 \<le> lastCharacterId (globals sys)" and "list_all vehicle_request_ok (requests sys)"
  shows "list_all vehicle_request_ok (requests (net rt i ev sys))"
proof (cases "i < length (requests sys)")
  case False
  with assms show ?thesis by (simp add: net_def)
next
  case True
  obtain f' s' where d: "deliver rt ev (requests sys ! i, globals sys) = (f', s')"
    by (cases "deliver rt ev (requests sys ! i, globals sys)")
  have e: "endpoint f' = endpoint (requests sys ! i)"
    using endpoint_deliver [of rt ev "requests sys ! i" "globals sys"] d by simp
  have "vehicle_request_ok (requests sys ! i)"
    using assms(2) True by (simp add: list_all_length)
  then have ok: "vehicle_request_ok f'"
    by (simp add: vehicle_request_ok_def for_vehicle_def e)
  have c: "1 \<le> lastCharacterId s'"
    using counters_deliver [where rt = rt and ev = ev and f = "requests sys ! i" and s = "globals sys"]
      d assms(1) by simp
  let ?sys1 = "sys\<lparr>globals := s', requests := (requests sys)[i := f']\<rparr>"
  have r1: "list_all vehicle_request_ok (requests ?sys1)"
    using assms(2) ok by (simp add: list_all_update)
  show ?thesis
  proof (cases "waiting_run i (runs ?sys1)")
    case None
    with True d r1 show ?thesis by (simp add: net_def)
  next
    case (Some j)
    have "list_all vehicle_request_ok (requests (continue_run rt j ?sys1))"
      by (rule requests_continue_run) (use c r1 in simp_all)
    with True d Some show ?thesis by (simp add: net_def)
  qed
qed

lemma requests_exec:
  assumes "1 \<le> lastCharacterId (globals sys)" and "list_all vehicle_request_ok (requests sys)"
  shows "list_all vehicle_request_ok (requests (exec rt a sys))"
proof (cases a)
  case (Http url)
  have "requests (exec rt (Http url) sys) = requests (snd (server rt url sys))"
    by (simp split: prod.splits)
  with Http assms show ?thesis by (simp add: server_effect requests_runDemo)
next
  case (Net i ev)
  with assms show ?thesis by (simp add: requests_net)
qed

lemma reachable_requests: "reachable rt sys \<Longrightarrow> list_all vehicle_request_ok (requests sys)"
proof (induction rule: reachable.induct)
  case (start args port)
  then show ?case by (simp add: boot_def)
next
  case (step sys a)
  with reachable_cursor [of rt sys] show ?case by (simp add: requests_exec)
qed

lemma steps_bound:
  assumes "lastCharacterId (globals sys) \<le> 5"
  shows "case runDemo_steps rt ks sys of (r, sys') \<Rightarrow>
           lastCharacterId (globals sys') \<le> 5
           \<and> before_increment (lastCharacterId (globals sys')) r"
  using assms
proof (induction ks arbitrary: sys)
  case Nil
  then show ?case using counters_displayStats [of "globals sys"] by (simp add: counters_def)
next
  case (Cons k ks)
  show ?case
  proof (cases "route k (globals sys)")
    case None
    with Cons show ?thesis by simp
  next
    case (Some e)
    obtain f s1 where f: "fetchResource (globals sys) e = (f, s1)"
      by (cases "fetchResource (globals sys) e")
    have c1: "lastCharacterId s1 = lastCharacterId (globals sys)"
      using cursor_fetchResource [of "globals sys" e] f by simp
    have guard: "k = Vehicle \<Longrightarrow> lastCharacterId (globals sys) \<le> MAX_VEHICLE_ID"
      using Some by (auto split: if_splits)
    show ?thesis
    proof (cases "promise f")
      case Pending
      have "before_increment (lastCharacterId s1) (Waiting (k # ks) (length (requests sys)))"
        using guard c1 by (cases k) simp_all
      with Some f Pending c1 Cons.prems show ?thesis by simp
    next
      case (Rejected err)
      with Some f c1 Cons.prems counters_runDemo_catch [of err s1] show ?thesis
        by (simp add: counters_def)
    next
      case (Resolved v)
      obtain r s2 where r: "resume rt k v s1 = (r, s2)" by (cases "resume rt k v s1")
      have c2: "lastCharacterId s2 = lastCharacterId s1 + (if k = Vehicle \<and> r = None then 1 else 0)"
        using counters_resume [where rt = rt and k = k and v = v and s = s1] r by simp
      have b2: "lastCharacterId s2 \<le> 5"
        using c2 c1 guard Cons.prems by (auto simp: MAX_VEHICLE_ID_def)
      show ?thesis
      proof (cases r)
        case None
        have "case runDemo_steps rt ks (sys\<lparr>globals := s2\<rparr>) of (r, sys') \<Rightarrow>
           lastCharacterId (globals sys') \<le> 5
           \<and> before_increment (lastCharacterId (globals sys')) r"
          by (rule Cons.IH) (simp add: b2)
        with \<open>route k (globals sys) = Some e\<close> f Resolved r None show ?thesis by simp
      next
        case (Some err)
        with \<open>route k (globals sys) = Some e\<close> f Resolved r b2
          counters_runDemo_catch [of err s2]
        show ?thesis by (simp add: counters_def)
      qed
    qed
  qed
qed

lemma all_finished_before_increment:
  "list_all (\<lambda>r. r = Finished) rs \<Longrightarrow> list_all (before_increment n) rs"
  by (induction rs) auto

lemma apart_runDemo:
  assumes "apart_invariant sys" and "idle sys"
  shows "apart_invariant (runDemo rt sys)"
proof -
  let ?sys = "sys\<lparr>globals := runDemo_begin (globals sys)\<rparr>"
  obtain r sys' where r: "runDemo_steps rt [Character, Starships, Planets, Films, Vehicle] ?sys = (r, sys')"
    by (cases "runDemo_steps rt [Character, Starships, Planets, Films, Vehicle] ?sys")
  have "lastCharacterId (globals ?sys) \<le> 5"
    using assms(1) counters_runDemo_begin [of "globals sys"]
    by (simp add: counters_def apart_invariant_def)
  from steps_bound [OF this, of rt "[Character, Starships, Planets, Films, Vehicle]"] r
  have b: "lastCharacterId (globals sys') \<le> 5"
    "before_increment (lastCharacterId (globals sys')) r"
    by (simp_all del: runDemo_steps.simps)
  have rs: "runs sys' = runs sys"
    using runs_runDemo_steps [of rt "[Character, Starships, Planets, Films, Vehicle]" ?sys] r
    by (simp del: runDemo_steps.simps)
  have fin: "list_all (\<lambda>r. r = Finished) (runs sys)"
    using assms(2) by (simp add: idle_def)
  have "runDemo rt sys = sys'\<lparr>runs := runs sys @ [r]\<rparr>"
    by (simp add: runDemo_def r rs del: runDemo_steps.simps)
  with b fin all_finished_before_increment [OF fin] show ?thesis
    by (simp add: apart_invariant_def)
qed

lemma waiting_run_Some:
  assumes "waiting_run i rs = Some j"
  shows "j < length rs \<and> waits_for i (rs ! j)"
proof -
  from assms have j: "j = length (takeWhile (\<lambda>r. \<not> waits_for i r) rs)" and l: "j < length rs"
    by (auto simp: waiting_run_def Let_def split: if_splits)
  from l have "\<not> (\<not> waits_for i (rs ! j))"
    unfolding j by (rule nth_length_takeWhile)
  with l show ?thesis by simp
qed

lemma unfinished_is_last:
  assumes "list_all (\<lambda>r. r = Finished) (butlast rs)" and "j < length rs" and "rs ! j \<noteq> Finished"
  shows "rs[j := r] = butlast rs @ [r]"
proof -
  have "\<not> j < length (butlast rs)"
  proof
    assume a: "j < length (butlast rs)"
    with assms(1) have "butlast rs ! j = Finished" by (simp add: list_all_length)
    with a assms(3) show False by (simp add: nth_butlast)
  qed
  with assms(2) have j: "j = length (butlast rs)" by simp
  from assms(2) have "rs \<noteq> []" by auto
  then have "rs = butlast rs @ [last rs]" by simp
  then have "rs[j := r] = (butlast rs @ [last rs])[j := r]" by simp
  also have "\<dots> = butlast rs @ [r]" unfolding j by (simp only: list_update_length)
  finally show ?thesis .
qed

lemma apart_finish:
  assumes "apart_invariant sys" and "j < length (runs sys)" and "runs sys ! j \<noteq> Finished"
    and "lastCharacterId s' \<le> 5" and "before_increment (lastCharacterId s') r"
    and "globals sys' = s'" and "runs sys' = (runs sys)[j := r]"
  shows "apart_invariant sys'"
proof -
  from assms(1) have fin: "list_all (\<lambda>r. r = Finished) (butlast (runs sys))"
    by (simp add: apart_invariant_def)
  have rs: "runs sys' = butlast (runs sys) @ [r]"
    using unfinished_is_last [OF fin assms(2,3)] assms(7) by simp
  from fin all_finished_before_increment [OF fin] assms(4,5,6) show ?thesis
    by (simp add: apart_invariant_def rs)
qed

lemma apart_continue_run:
  assumes "apart_invariant sys" and "j < length (runs sys)"
  shows "apart_invariant (continue_run rt j sys)"
proof (cases "runs sys ! j")
  case Finished
  with assms show ?thesis by (simp add: continue_run_def)
next
  case (Waiting ks i)
  then have unfinished: "runs sys ! j \<noteq> Finished" by simp
  from assms(1) have b: "lastCharacterId (globals sys) \<le> 5"
    and g: "list_all (before_increment (lastCharacterId (globals sys))) (runs sys)"
    by (simp_all add: apart_invariant_def)
  show ?thesis
  proof (cases ks)
    case Nil
    with Waiting assms show ?thesis by (simp add: continue_run_def)
  next
    case (Cons k ks')
    from g assms(2) Waiting Cons
    have gj: "before_increment (lastCharacterId (globals sys)) (Waiting (k # ks') i)"
      by (auto simp: list_all_length)
    show ?thesis
    proof (cases "promise (requests sys ! i)")
      case Pending
      with Waiting Cons assms show ?thesis by (simp add: continue_run_def)
    next
      case (Rejected e)
      let ?sys' = "sys\<lparr>globals := runDemo_catch e (globals sys), runs := (runs sys)[j := Finished]\<rparr>"
      have "lastCharacterId (runDemo_catch e (globals sys)) \<le> 5"
        using b counters_runDemo_catch [of e "globals sys"] by (simp add: counters_def)
      then have "apart_invariant ?sys'"
        by (intro apart_finish [OF assms(1,2) unfinished, where r = Finished]) simp_all
      with Waiting Cons Rejected show ?thesis by (simp add: continue_run_def)
    next
      case (Resolved v)
      obtain r s' where r: "resume rt k v (globals sys) = (r, s')"
        by (cases "resume rt k v (globals sys)")
      have c: "lastCharacterId s' = lastCharacterId (globals sys) + (if k = Vehicle \<and> r = None then 1 else 0)"
        using counters_resume [where rt = rt and k = k and v = v and s = "globals sys"] r by simp
      have b': "lastCharacterId s' \<le> 5"
        using c b gj by (cases k) (auto simp: MAX_VEHICLE_ID_def)
      show ?thesis
      proof (cases r)
        case None
        obtain r' sys' where r': "runDemo_steps rt ks' (sys\<lparr>globals := s'\<rparr>) = (r', sys')"
          by (cases "runDemo_steps rt ks' (sys\<lparr>globals := s'\<rparr>)")
        from steps_bound [of "sys\<lparr>globals := s'\<rparr>" rt ks'] b' r'
        have s: "lastCharacterId (globals sys') \<le> 5"
          "before_increment (lastCharacterId (globals sys')) r'"
          by simp_all
        have rs: "runs sys' = runs sys"
          using runs_runDemo_steps [of rt ks' "sys\<lparr>globals := s'\<rparr>"] r' by simp
        have "apart_invariant (sys'\<lparr>runs := (runs sys')[j := r']\<rparr>)"
          by (rule apart_finish [OF assms(1,2) unfinished s]) (simp_all add: rs)
        with Waiting Cons Resolved r None r' show ?thesis
          by (simp add: continue_run_def)
      next
        case (Some e)
        let ?sys' = "sys\<lparr>globals := runDemo_catch e s', runs := (runs sys)[j := Finished]\<rparr>"
        have "lastCharacterId (runDemo_catch e s') \<le> 5"
          using b' counters_runDemo_catch [of e s'] by (simp add: counters_def)
        then have "apart_invariant ?sys'"
          by (intro apart_finish [OF assms(1,2) unfinished, where r = Finished]) simp_all
        with Waiting Cons Resolved r Some show ?thesis by (simp add: continue_run_def)
      qed
    qed
  qed
qed

lemma apart_net:
  assumes "apart_invariant sys"
  shows "apart_invariant (net rt i ev sys)"
proof (cases "i < length (requests sys)")
  case False
  with assms show ?thesis by (simp add: net_def)
next
  case True
  obtain f' s' where d: "deliver rt ev (requests sys ! i, globals sys) = (f', s')"
    by (cases "deliver rt ev (requests sys ! i, globals sys)")
  have c: "lastCharacterId s' = lastCharacterId (globals sys)"
    using counters_deliver [where rt = rt and ev = ev and f = "requests sys ! i" and s = "globals sys"]
      d by simp
  let ?sys1 = "sys\<lparr>globals := s', requests := (requests sys)[i := f']\<rparr>"
  have inv1: "apart_invariant ?sys1"
    using assms c by (simp add: apart_invariant_def)
  show ?thesis
  proof (cases "waiting_run i (runs ?sys1)")
    case None
    with True d inv1 show ?thesis by (simp add: net_def)
  next
    case (Some j)
    from waiting_run_Some [OF Some] have "j < length (runs ?sys1)" by simp
    from apart_continue_run [OF inv1 this, of rt] True d Some show ?thesis
      by (simp add: net_def)
  qed
qed

lemma apart_sent: "apart_invariant (sys\<lparr>sent := x\<rparr>) = apart_invariant sys"
  by (simp add: apart_invariant_def)

lemma apart_exec:
  assumes "apart_invariant sys" and "\<not> overlaps a sys"
  shows "apart_invariant (exec rt a sys)"
proof (cases a)
  case (Http url)
  have "apart_invariant (snd (server rt url sys))"
    using assms Http by (auto simp: server_effect apart_runDemo)
  with Http show ?thesis by (cases "server rt url sys") (simp add: apart_sent)
next
  case (Net i ev)
  with assms show ?thesis by (simp add: apart_net)
qed

lemma reachable_apart_invariant: "reachable_apart rt sys \<Longrightarrow> apart_invariant sys"
proof (induction rule: reachable_apart.induct)
  case (start args port)
  then show ?case using boot_cursor [of args port] by (simp add: apart_invariant_def boot_def)
next
  case (step sys a)
  then show ?case by (simp add: apart_exec)
qed

lemma vehicle_step_skipped:
  assumes "MAX_VEHICLE_ID < lastCharacterId (globals sys)"
  shows "runDemo_steps rt [Vehicle] sys = (Finished, sys\<lparr>globals := displayStats (globals sys)\<rparr>)"
  using assms by simp

lemma route_not_inherited: "route k s = Some e \<Longrightarrow> e \<notin> set Object_prototype"
  by (cases k) (auto simp: Object_prototype_def split: if_splits)

lemma reachable_exec_all: "reachable rt sys \<Longrightarrow> reachable rt (exec_all rt as sys)"
proof (induction as arbitrary: sys)
  case Nil
  then show ?case by (simp add: exec_all_def)
next
  case (Cons a as)
  from Cons.IH [OF reachable.step [OF Cons.prems, of a]] show ?case
    by (simp add: exec_all_def)
qed

text \<open>
  C10, amended: the cursor starts at 1 and never decreases, so it is at least 1 in every
  state of the process; every request for a vehicle is for one of \<^verbatim>\<open>vehicles/1\<close> to
  \<^verbatim>\<open>vehicles/4\<close>; once the cursor exceeds 4 the vehicle display does nothing; and as long
  as no two runs overlap, the cursor is at most 5 and is incremented only from a value of
  at most 4.
\<close>

theorem cursor_bounds:
  "(reachable rt sys \<longrightarrow>
      1 \<le> lastCharacterId (globals sys) \<and> list_all vehicle_request_ok (requests sys))
   \<and> (reachable_apart rt sys \<longrightarrow>
        lastCharacterId (globals sys) \<le> 5
        \<and> list_all (before_increment (lastCharacterId (globals sys))) (runs sys))
   \<and> (MAX_VEHICLE_ID < lastCharacterId (globals past) \<longrightarrow>
        route Vehicle (globals past) = None
        \<and> runDemo_steps rt [Vehicle] past = (Finished, past\<lparr>globals := displayStats (globals past)\<rparr>))
   \<and> lastCharacterId (globals sys) \<le> lastCharacterId (globals (exec rt a sys))"
  using reachable_cursor [of rt sys] reachable_requests [of rt sys]
    reachable_apart_invariant [of rt sys] vehicle_step_skipped [of past rt] cursor_exec [of sys rt a]
  by (auto simp: apart_invariant_def)

theorem cursor_bounds_witness:
  "reachable rt0 one_run_started \<and> reachable_apart rt0 one_run_started
   \<and> MAX_VEHICLE_ID < lastCharacterId (globals cursor_past_limit)
   \<and> 1 \<le> lastCharacterId (globals one_run_started)
   \<and> list_all vehicle_request_ok (requests one_run_started)
   \<and> lastCharacterId (globals one_run_started) \<le> 5
   \<and> list_all (before_increment (lastCharacterId (globals one_run_started))) (runs one_run_started)
   \<and> route Vehicle (globals cursor_past_limit) = None
   \<and> runDemo_steps rt0 [Vehicle] cursor_past_limit
        = (Finished, cursor_past_limit\<lparr>globals := displayStats (globals cursor_past_limit)\<rparr>)"
proof -
  have a: "reachable rt0 one_run_started"
    unfolding one_run_started_def by (rule reachable.step [OF reachable.start])
  have "\<not> overlaps (Http ''/api'') (boot [] ''3000'')"
    by (simp add: idle_def boot_def)
  then have b: "reachable_apart rt0 one_run_started"
    unfolding one_run_started_def by (rule reachable_apart.step [OF reachable_apart.start])
  have c: "MAX_VEHICLE_ID < lastCharacterId (globals cursor_past_limit)"
    by (simp add: MAX_VEHICLE_ID_def cursor_past_limit_def)
  from cursor_bounds [of rt0 one_run_started cursor_past_limit] a b c
  show ?thesis by blast
qed

text \<open>
  C10 as stated fails: \<^verbatim>\<open>/api\<close> does not wait for the run it starts (line 231), and
  the test of line 134 and the increment of line 146 are separated by the fetch. Five
  runs that all wait for \<^verbatim>\<open>vehicles/1\<close> each increment the cursor, which ends at 6.
\<close>

theorem overlapping_runs_pass_the_bound:
  "reachable rt0 (exec_all rt0 (first_run_waits @ four_more_runs @ vehicle_replies) (boot [''--no-debug''] ''3000''))
   \<and> lastCharacterId (globals (exec_all rt0 (first_run_waits @ four_more_runs @ vehicle_replies)
        (boot [''--no-debug''] ''3000''))) = 6"
proof -
  have "lastCharacterId (globals (exec_all rt0 (first_run_waits @ four_more_runs @ vehicle_replies)
        (boot [''--no-debug''] ''3000''))) = 6"
    by code_simp
  with reachable_exec_all [OF reachable.start] show ?thesis by blast
qed


end
